theory Spec2Isabelle
  imports Main "HOL-Library.AList"
begin

section \<open>Python strings\<close>

text \<open>
  A Python \<open>str\<close> is a sequence of Unicode code points, and \<open>len\<close> counts code points.
  A HOL \<open>char\<close> has eight bits only, so a \<open>str\<close> is modelled as the list of its code
  points. \<open>u\<close> turns an ASCII literal into that representation.
\<close>

type_synonym ustring = "nat list"

definition u :: "string \<Rightarrow> ustring" where
  "u s = map of_char s"

text \<open>
  \<open>str.isspace\<close> of CPython for one code point: the characters of bidirectional type
  WS, B or S and of category Zs.
\<close>

definition isspace :: "nat \<Rightarrow> bool" where
  "isspace c =
     (c \<in> {9, 10, 11, 12, 13, 28, 29, 30, 31, 32, 133, 160, 5760,
            8232, 8233, 8239, 8287, 12288}
      \<or> (8192 \<le> c \<and> c \<le> 8202))"

text \<open>\<open>s.strip()\<close>: leading and trailing whitespace removed.\<close>

definition str_strip :: "ustring \<Rightarrow> ustring" where
  "str_strip s = rev (dropWhile isspace (rev (dropWhile isspace s)))"

text \<open>
  \<open>s.split()\<close> without arguments: the maximal runs of non-whitespace characters, in
  order. \<open>split_from w s\<close> scans \<open>s\<close> with the current run \<open>w\<close>.
\<close>

fun split_from :: "ustring \<Rightarrow> ustring \<Rightarrow> ustring list" where
  "split_from w [] = (if w = [] then [] else [w])"
| "split_from w (c # cs) =
     (if isspace c then (if w = [] then split_from [] cs else w # split_from [] cs)
      else split_from (w @ [c]) cs)"

definition str_split :: "ustring \<Rightarrow> ustring list" where
  "str_split s = split_from [] s"

text \<open>\<open>sep.join(xs)\<close>.\<close>

fun str_join :: "ustring \<Rightarrow> ustring list \<Rightarrow> ustring" where
  "str_join sep [] = []"
| "str_join sep [x] = x"
| "str_join sep (x # y # ys) = x @ sep @ str_join sep (y # ys)"

text \<open>
  \<open>s.lower()\<close>. The source compares the result with the ASCII words \<open>true\<close> and
  \<open>hidden\<close> only. Python's Unicode lower-casing maps no character outside \<open>A-Z\<close> to a
  letter of these two words, so for these comparisons it agrees with the ASCII mapping
  written here.
\<close>

definition lower_char :: "nat \<Rightarrow> nat" where
  "lower_char c = (if 65 \<le> c \<and> c \<le> 90 then c + 32 else c)"

definition str_lower :: "ustring \<Rightarrow> ustring" where
  "str_lower s = map lower_char s"

text \<open>\<open>s.startswith(p)\<close>.\<close>

definition str_startswith :: "ustring \<Rightarrow> ustring \<Rightarrow> bool" where
  "str_startswith s p = (take (length p) s = p)"

text \<open>
  \<open>s[:stop]\<close> for an integer \<open>stop\<close>: a negative \<open>stop\<close> counts from the end of the
  string, and the bounds are clamped to the string.
\<close>

definition slice_to :: "'a list \<Rightarrow> int \<Rightarrow> 'a list" where
  "slice_to s stop =
     (if 0 \<le> stop then take (nat stop) s else take (nat (int (length s) + stop)) s)"

section \<open>The parsed document\<close>

text \<open>
  The tree that \<open>BeautifulSoup(html, "html.parser")\<close> builds. An attribute value is a
  string, or a list of strings for the multi-valued attributes (\<open>class\<close>, \<open>rel\<close>, ...);
  the source also provides for \<open>None\<close> as a value and for \<open>None\<close> inside a list.
  A string node is a \<open>NavigableString\<close> or one of its subclasses.
\<close>

datatype attr_value = VNone | VStr ustring | VList "ustring option list"

datatype string_kind =
  NavigableString | Comment | CData | ProcessingInstruction | Declaration | Doctype

datatype node =
  Tag ustring "(ustring \<times> attr_value) list" "node list"
| PageString string_kind ustring

text \<open>
  A \<open>Tag\<close> object as the source's functions receive it: \<open>el.name\<close>, \<open>el.attrs\<close> (a
  dict, kept in insertion order) and \<open>el.contents\<close>.
\<close>

record element =
  el_name :: ustring
  el_attrs :: "(ustring \<times> attr_value) list"
  el_contents :: "node list"

datatype error = AttributeError | TypeError | KeyError | IndexError

subsection \<open>Configuration\<close>

definition KEEP_ATTRS :: "ustring set" where
  "KEEP_ATTRS =
     {u ''id'', u ''name'', u ''type'', u ''placeholder'', u ''value'', u ''href'', u ''for'',
      u ''role'', u ''aria-label'', u ''aria-labelledby'', u ''aria-describedby'',
      u ''data-testid'', u ''data-test'', u ''data-qa''}"

definition NOISE_TAGS :: "ustring list" where
  "NOISE_TAGS =
     [u ''script'', u ''style'', u ''noscript'', u ''svg'', u ''img'', u ''video'', u ''canvas'']"

text \<open>
  \<open>CONTROL_SELECTOR\<close> is a selector list: nine type selectors and ten attribute
  selectors \<open>[role=v]\<close>.
\<close>

definition control_tags :: "ustring set" where
  "control_tags =
     {u ''button'', u ''a'', u ''input'', u ''textarea'', u ''select'', u ''option'',
      u ''label'', u ''summary'', u ''details''}"

definition control_roles :: "ustring set" where
  "control_roles =
     {u ''button'', u ''link'', u ''textbox'', u ''searchbox'', u ''combobox'', u ''listbox'',
      u ''checkbox'', u ''radio'', u ''tab'', u ''menuitem''}"

text \<open>
  The literal appended to a truncated text. Between its quotes the source file has the
  three code points U+00E2, U+20AC and U+00A6: the bytes of the ellipsis U+2026 read as
  Windows-1252.
\<close>

definition ELLIPSIS :: ustring where
  "ELLIPSIS = [226, 8364, 166]"

subsection \<open>Data model\<close>

record ControlItem =
  tag :: ustring
  "text" :: "ustring option"
  attrs :: "(ustring \<times> ustring) list option"

section \<open>Library operations on the tree\<close>

text \<open>\<open>_remove_comments\<close>: every \<open>Comment\<close> node is extracted from the tree.\<close>

definition is_comment :: "node \<Rightarrow> bool" where
  "is_comment n = (case n of PageString k s \<Rightarrow> k = Comment | Tag t a cs \<Rightarrow> False)"

fun strip_comments :: "node \<Rightarrow> node" where
  "strip_comments (Tag t a cs) =
     Tag t a (map strip_comments (filter (\<lambda>c. \<not> is_comment c) cs))"
| "strip_comments (PageString k s) = PageString k s"

definition remove_comments :: "node list \<Rightarrow> node list" where
  "remove_comments soup = map strip_comments (filter (\<lambda>c. \<not> is_comment c) soup)"

text \<open>
  \<open>_remove_noise\<close>: every tag whose name is in \<open>NOISE_TAGS\<close> is decomposed, that is
  removed together with its subtree.
\<close>

definition is_noise :: "node \<Rightarrow> bool" where
  "is_noise n = (case n of Tag t a cs \<Rightarrow> t \<in> set NOISE_TAGS | PageString k s \<Rightarrow> False)"

fun strip_noise :: "node \<Rightarrow> node" where
  "strip_noise (Tag t a cs) =
     Tag t a (map strip_noise (filter (\<lambda>c. \<not> is_noise c) cs))"
| "strip_noise (PageString k s) = PageString k s"

definition remove_noise :: "node list \<Rightarrow> node list" where
  "remove_noise soup = map strip_noise (filter (\<lambda>c. \<not> is_noise c) soup)"

text \<open>
  \<open>soup.select(CONTROL_SELECTOR)\<close>: the tags below the root that match one of the
  selectors of the list, each once, in document order (a tag before its descendants,
  siblings from left to right). The parser delivers the names of tags and attributes in
  lower case, so a type selector is compared with \<open>el.name\<close> and \<open>[role=v]\<close> looks up
  the attribute \<open>role\<close> as they are. A list-valued attribute is matched on its values
  joined by spaces.
\<close>

fun descendants :: "node \<Rightarrow> element list" where
  "descendants (Tag t a cs) =
     \<lparr>el_name = t, el_attrs = a, el_contents = cs\<rparr> # concat (map descendants cs)"
| "descendants (PageString k s) = []"

definition attr_text :: "attr_value \<Rightarrow> ustring" where
  "attr_text v =
     (case v of VNone \<Rightarrow> [] | VStr s \<Rightarrow> s
      | VList xs \<Rightarrow> str_join (u '' '') (map (\<lambda>x. case x of None \<Rightarrow> [] | Some s \<Rightarrow> s) xs))"

definition matches_control_selector :: "element \<Rightarrow> bool" where
  "matches_control_selector el =
     (el_name el \<in> control_tags
      \<or> (case map_of (el_attrs el) (u ''role'') of
            None \<Rightarrow> False
          | Some v \<Rightarrow> attr_text v \<in> control_roles))"

definition select_controls :: "node list \<Rightarrow> element list" where
  "select_controls soup = filter matches_control_selector (concat (map descendants soup))"

text \<open>
  \<open>el.get_text(separator, strip=True)\<close>: the strings below \<open>el\<close> of class
  \<open>NavigableString\<close> or \<open>CData\<close>, in document order, each stripped, the empty ones
  left out, joined by the separator.
\<close>

fun strings_of :: "node \<Rightarrow> ustring list" where
  "strings_of (Tag t a cs) = concat (map strings_of cs)"
| "strings_of (PageString k s) = (if k = NavigableString \<or> k = CData then [s] else [])"

definition get_text :: "ustring \<Rightarrow> element \<Rightarrow> ustring" where
  "get_text separator el =
     str_join separator
       (filter (\<lambda>s. s \<noteq> []) (map str_strip (concat (map strings_of (el_contents el)))))"

text \<open>\<open>el.get(key)\<close>: the attribute's value, \<open>None\<close> when the tag has no such attribute.\<close>

definition el_get :: "element \<Rightarrow> ustring \<Rightarrow> attr_value" where
  "el_get el k = (case map_of (el_attrs el) k of None \<Rightarrow> VNone | Some v \<Rightarrow> v)"

section \<open>Minimization and extraction\<close>

definition normalize_text :: "ustring \<Rightarrow> ustring" where
  "normalize_text t = str_strip (str_join (u '' '') (str_split t))"

text \<open>
  \<open>(v or "").lower()\<close>: \<open>None\<close>, the empty string and the empty list are falsy and
  give the empty string; a non-empty list has no method \<open>lower\<close>.
\<close>

definition or_empty_lower :: "attr_value \<Rightarrow> error + ustring" where
  "or_empty_lower v =
     (case v of
        VNone \<Rightarrow> Inr (str_lower [])
      | VStr s \<Rightarrow> Inr (str_lower s)
      | VList xs \<Rightarrow> (if xs = [] then Inr (str_lower []) else Inl AttributeError))"

definition is_hidden :: "element \<Rightarrow> error + bool" where
  "is_hidden el =
     (case or_empty_lower (el_get el (u ''aria-hidden'')) of
        Inl e \<Rightarrow> Inl e
      | Inr a \<Rightarrow>
          if a = u ''true'' then Inr True
          else if el_name el = u ''input'' then
            (case or_empty_lower (el_get el (u ''type'')) of
               Inl e \<Rightarrow> Inl e
             | Inr t \<Rightarrow> if t = u ''hidden'' then Inr True else Inr False)
          else Inr False)"

text \<open>
  The loop of \<open>_filter_attrs\<close> over \<open>el.attrs.items()\<close>, with the dict \<open>out\<close> built so
  far. \<open>out[k] = s\<close> is \<open>AList.update\<close>: a new key goes to the end, an old one keeps
  its place.
\<close>

fun filter_attrs_loop ::
  "ustring set \<Rightarrow> (ustring \<times> attr_value) list \<Rightarrow> (ustring \<times> ustring) list
     \<Rightarrow> (ustring \<times> ustring) list" where
  "filter_attrs_loop keep [] out = out"
| "filter_attrs_loop keep ((k, v) # kvs) out =
     (if k \<in> keep \<or> str_startswith k (u ''data-test'') then
        (case v of
           VNone \<Rightarrow> filter_attrs_loop keep kvs out
         | VList xs \<Rightarrow>
             filter_attrs_loop keep kvs
               (AList.update k (str_join (u '' '') (List.map_filter (\<lambda>x. x) xs)) out)
         | VStr s \<Rightarrow> filter_attrs_loop keep kvs (AList.update k s out))
      else filter_attrs_loop keep kvs out)"

definition filter_attrs :: "element \<Rightarrow> ustring set \<Rightarrow> (ustring \<times> ustring) list" where
  "filter_attrs el keep_attrs = filter_attrs_loop keep_attrs (el_attrs el) []"

text \<open>
  One pass through the body of the \<open>for\<close> loop of \<open>extract_controls_inventory\<close>:
  \<open>None\<close> when the element is skipped by \<open>continue\<close>, the appended item otherwise.
\<close>

definition truncate_text :: "int \<Rightarrow> ustring \<Rightarrow> ustring" where
  "truncate_text max_text_len t =
     (if t \<noteq> [] \<and> int (length t) > max_text_len
      then slice_to t (max_text_len - 1) @ ELLIPSIS else t)"

definition control_item :: "int \<Rightarrow> element \<Rightarrow> error + ControlItem option" where
  "control_item max_text_len el =
     (case is_hidden el of
        Inl e \<Rightarrow> Inl e
      | Inr hidden \<Rightarrow>
          if hidden then Inr None
          else
            (let t = truncate_text max_text_len (normalize_text (get_text (u '' '') el));
                 a = filter_attrs el KEEP_ATTRS
             in if t = [] \<and> a = [] then Inr None
                else Inr (Some \<lparr>tag = el_name el,
                                 text = (if t = [] then None else Some t),
                                 attrs = (if a = [] then None else Some a)\<rparr>)))"

fun extract_loop :: "int \<Rightarrow> element list \<Rightarrow> error + ControlItem list" where
  "extract_loop max_text_len [] = Inr []"
| "extract_loop max_text_len (el # els) =
     (case control_item max_text_len el of
        Inl e \<Rightarrow> Inl e
      | Inr r \<Rightarrow>
          (case extract_loop max_text_len els of
             Inl e \<Rightarrow> Inl e
           | Inr items \<Rightarrow> Inr (case r of None \<Rightarrow> items | Some it \<Rightarrow> it # items)))"

text \<open>
  \<open>extract_controls_inventory\<close>. The argument \<open>soup\<close> stands for the markup: it is the
  contents of the tree that the first line of the function builds from \<open>html\<close>.
\<close>

definition extract_controls_inventory :: "node list \<Rightarrow> int \<Rightarrow> error + ControlItem list" where
  "extract_controls_inventory soup max_text_len =
     extract_loop max_text_len (select_controls (remove_noise (remove_comments soup)))"

section \<open>Serialization\<close>

text \<open>
  The values that \<open>inventory_to_json\<close> hands to \<open>json.dumps\<close>: strings, lists and
  dicts (in insertion order).
\<close>

datatype jvalue =
  JString ustring
| JArray "jvalue list"
| JObject "(ustring \<times> jvalue) list"

text \<open>\<open>ControlItem.to_compact_dict\<close>.\<close>

definition to_compact_dict :: "ControlItem \<Rightarrow> (ustring \<times> jvalue) list" where
  "to_compact_dict it =
     [(u ''tag'', JString (tag it))]
     @ (case text it of
          None \<Rightarrow> []
        | Some t \<Rightarrow> if t \<noteq> [] then [(u ''text'', JString t)] else [])
     @ (case attrs it of
          None \<Rightarrow> []
        | Some a \<Rightarrow>
            if a \<noteq> [] then [(u ''attrs'', JObject (map (\<lambda>kv. (fst kv, JString (snd kv))) a))]
            else [])"

text \<open>
  \<open>json.dumps(payload, ensure_ascii=False, separators=(",", ":"))\<close>. Inside a string
  the encoder replaces the quote, the backslash and the control characters below
  \<open>0x20\<close> (the short escapes \<open>\b \t \n \f \r\<close>, the other ones as \<open>\u00xx\<close> in
  lower-case hexadecimal) and copies every other code point.
\<close>

definition hex_digit :: "nat \<Rightarrow> nat" where
  "hex_digit d = (if d < 10 then 48 + d else 87 + d)"

definition escape_char :: "nat \<Rightarrow> ustring" where
  "escape_char c =
     (if c = 34 then [92, 34]
      else if c = 92 then [92, 92]
      else if c = 10 then [92, 110]
      else if c = 13 then [92, 114]
      else if c = 9 then [92, 116]
      else if c = 8 then [92, 98]
      else if c = 12 then [92, 102]
      else if c < 32 then [92, 117, 48, 48, hex_digit (c div 16), hex_digit (c mod 16)]
      else [c])"

definition encode_basestring :: "ustring \<Rightarrow> ustring" where
  "encode_basestring s = [34] @ concat (map escape_char s) @ [34]"

fun dumps :: "jvalue \<Rightarrow> ustring" where
  "dumps (JString s) = encode_basestring s"
| "dumps (JArray vs) = [91] @ str_join [44] (map dumps vs) @ [93]"
| "dumps (JObject ms) =
     [123] @ str_join [44] (map (\<lambda>kv. encode_basestring (fst kv) @ [58] @ dumps (snd kv)) ms)
     @ [125]"

definition inventory_to_json :: "ControlItem list \<Rightarrow> ustring" where
  "inventory_to_json items = dumps (JArray (map (\<lambda>it. JObject (to_compact_dict it)) items))"

section \<open>Reading the inventory back\<close>

text \<open>
  A reader of the written document: a JSON parser for strings, arrays and objects, the
  values the serializer emits. Insignificant whitespace is skipped, a raw control
  character inside a string is refused, and \<open>\uXXXX\<close> stands for the code unit
  \<open>XXXX\<close>. The first argument of the parsing functions bounds the depth of the calls;
  \<open>loads\<close> starts with more than the document is long.
\<close>

definition json_ws :: "nat \<Rightarrow> bool" where
  "json_ws c = (c = 32 \<or> c = 9 \<or> c = 10 \<or> c = 13)"

definition skip_ws :: "ustring \<Rightarrow> ustring" where
  "skip_ws s = dropWhile json_ws s"

definition hex_value :: "nat \<Rightarrow> nat option" where
  "hex_value c =
     (if 48 \<le> c \<and> c \<le> 57 then Some (c - 48)
      else if 97 \<le> c \<and> c \<le> 102 then Some (c - 87)
      else if 65 \<le> c \<and> c \<le> 70 then Some (c - 55)
      else None)"

definition unescape :: "nat \<Rightarrow> nat option" where
  "unescape e =
     (if e = 34 then Some 34
      else if e = 92 then Some 92
      else if e = 47 then Some 47
      else if e = 98 then Some 8
      else if e = 102 then Some 12
      else if e = 110 then Some 10
      else if e = 114 then Some 13
      else if e = 116 then Some 9
      else None)"

fun scan_string :: "ustring \<Rightarrow> ustring \<Rightarrow> (ustring \<times> ustring) option" where
  "scan_string acc [] = None"
| "scan_string acc (c # cs) =
     (if c = 34 then Some (acc, cs)
      else if c = 92 then
        (case cs of
           [] \<Rightarrow> None
         | e # r \<Rightarrow>
             if e = 117 then
               (case r of
                  h1 # h2 # h3 # h4 # r' \<Rightarrow>
                    (case (hex_value h1, hex_value h2, hex_value h3, hex_value h4) of
                       (Some a, Some b, Some c, Some d) \<Rightarrow>
                         scan_string (acc @ [((a * 16 + b) * 16 + c) * 16 + d]) r'
                     | _ \<Rightarrow> None)
                | _ \<Rightarrow> None)
             else
               (case unescape e of
                  None \<Rightarrow> None
                | Some x \<Rightarrow> scan_string (acc @ [x]) r))
      else if c < 32 then None
      else scan_string (acc @ [c]) cs)"

fun parse_value :: "nat \<Rightarrow> ustring \<Rightarrow> (jvalue \<times> ustring) option"
  and parse_elements :: "nat \<Rightarrow> ustring \<Rightarrow> (jvalue list \<times> ustring) option"
  and parse_members :: "nat \<Rightarrow> ustring \<Rightarrow> ((ustring \<times> jvalue) list \<times> ustring) option"
where
  "parse_value 0 s = None"
| "parse_value (Suc n) s =
     (case skip_ws s of
        [] \<Rightarrow> None
      | c # cs \<Rightarrow>
          if c = 34 then
            (case scan_string [] cs of
               None \<Rightarrow> None
             | Some (str, r) \<Rightarrow> Some (JString str, r))
          else if c = 91 then
            (case skip_ws cs of
               [] \<Rightarrow> None
             | d # ds \<Rightarrow>
                 if d = 93 then Some (JArray [], ds)
                 else
                   (case parse_elements n cs of
                      None \<Rightarrow> None
                    | Some (vs, r) \<Rightarrow> Some (JArray vs, r)))
          else if c = 123 then
            (case skip_ws cs of
               [] \<Rightarrow> None
             | d # ds \<Rightarrow>
                 if d = 125 then Some (JObject [], ds)
                 else
                   (case parse_members n cs of
                      None \<Rightarrow> None
                    | Some (ms, r) \<Rightarrow> Some (JObject ms, r)))
          else None)"
| "parse_elements 0 s = None"
| "parse_elements (Suc n) s =
     (case parse_value n s of
        None \<Rightarrow> None
      | Some (v, r) \<Rightarrow>
          (case skip_ws r of
             [] \<Rightarrow> None
           | c # cs \<Rightarrow>
               if c = 44 then
                 (case parse_elements n cs of
                    None \<Rightarrow> None
                  | Some (vs, r') \<Rightarrow> Some (v # vs, r'))
               else if c = 93 then Some ([v], cs)
               else None))"
| "parse_members 0 s = None"
| "parse_members (Suc n) s =
     (case skip_ws s of
        [] \<Rightarrow> None
      | c # cs \<Rightarrow>
          if c = 34 then
            (case scan_string [] cs of
               None \<Rightarrow> None
             | Some (k, r) \<Rightarrow>
                 (case skip_ws r of
                    [] \<Rightarrow> None
                  | d # ds \<Rightarrow>
                      if d = 58 then
                        (case parse_value n ds of
                           None \<Rightarrow> None
                         | Some (v, r') \<Rightarrow>
                             (case skip_ws r' of
                                [] \<Rightarrow> None
                              | e # es \<Rightarrow>
                                  if e = 44 then
                                    (case parse_members n es of
                                       None \<Rightarrow> None
                                     | Some (ms, r'') \<Rightarrow> Some ((k, v) # ms, r''))
                                  else if e = 125 then Some ([(k, v)], es)
                                  else None))
                      else None))
          else None)"

definition loads :: "ustring \<Rightarrow> jvalue option" where
  "loads s =
     (case parse_value (Suc (length s)) s of
        None \<Rightarrow> None
      | Some (v, r) \<Rightarrow> if skip_ws r = [] then Some v else None)"

text \<open>
  The triple of a parsed object: \<open>tag\<close>, and \<open>text\<close> and \<open>attrs\<close> where the object
  has them.
\<close>

definition from_compact_dict :: "jvalue \<Rightarrow> ControlItem option" where
  "from_compact_dict v =
     (case v of
        JObject ms \<Rightarrow>
          (case map_of ms (u ''tag'') of
             Some (JString t) \<Rightarrow>
               Some \<lparr>tag = t,
                     text = (case map_of ms (u ''text'') of Some (JString s) \<Rightarrow> Some s | _ \<Rightarrow> None),
                     attrs =
                       (case map_of ms (u ''attrs'') of
                          Some (JObject a) \<Rightarrow>
                            Some (map (\<lambda>kv. (fst kv, case snd kv of JString s \<Rightarrow> s | _ \<Rightarrow> [])) a)
                        | _ \<Rightarrow> None)\<rparr>
           | _ \<Rightarrow> None)
      | _ \<Rightarrow> None)"

definition inventory_of_json :: "ustring \<Rightarrow> ControlItem list option" where
  "inventory_of_json doc =
     (case loads doc of
        Some (JArray vs) \<Rightarrow>
          (if list_all (\<lambda>v. from_compact_dict v \<noteq> None) vs
           then Some (map (\<lambda>v. the (from_compact_dict v)) vs) else None)
      | _ \<Rightarrow> None)"

section \<open>The chat-completion script\<close>

text \<open>
  What \<open>r.json()\<close> returns: the Python value of a JSON document. A float is kept as
  its literal; the script never computes with it.
\<close>

datatype pyobj =
  PNone | PBool bool | PInt int | PFloat ustring | PStr ustring
| PList "pyobj list" | PDict "(ustring \<times> pyobj) list"

text \<open>
  \<open>key in data\<close> for a string \<open>key\<close>: a key of a dict, an element of a list, a
  substring of a string; the other values are not iterable.
\<close>

fun is_substring :: "ustring \<Rightarrow> ustring \<Rightarrow> bool" where
  "is_substring p [] = (p = [])"
| "is_substring p (c # cs) = (str_startswith (c # cs) p \<or> is_substring p cs)"

definition py_in :: "ustring \<Rightarrow> pyobj \<Rightarrow> error + bool" where
  "py_in key data =
     (case data of
        PDict kvs \<Rightarrow> Inr (key \<in> fst ` set kvs)
      | PList xs \<Rightarrow> Inr (PStr key \<in> set xs)
      | PStr s \<Rightarrow> Inr (is_substring key s)
      | _ \<Rightarrow> Inl TypeError)"

text \<open>\<open>obj[key]\<close> for a string \<open>key\<close>: only a dict can be indexed by a string.\<close>

definition getitem_str :: "pyobj \<Rightarrow> ustring \<Rightarrow> error + pyobj" where
  "getitem_str obj key =
     (case obj of
        PDict kvs \<Rightarrow> (case map_of kvs key of None \<Rightarrow> Inl KeyError | Some v \<Rightarrow> Inr v)
      | _ \<Rightarrow> Inl TypeError)"

text \<open>
  \<open>obj[0]\<close>: the first element of a list, the first character of a string; a dict of
  a JSON document has string keys only, so \<open>0\<close> is not among them.
\<close>

definition getitem_0 :: "pyobj \<Rightarrow> error + pyobj" where
  "getitem_0 obj =
     (case obj of
        PList xs \<Rightarrow> (case xs of [] \<Rightarrow> Inl IndexError | x # rest \<Rightarrow> Inr x)
      | PStr s \<Rightarrow> (case s of [] \<Rightarrow> Inl IndexError | c # rest \<Rightarrow> Inr (PStr [c]))
      | PDict kvs \<Rightarrow> Inl KeyError
      | _ \<Rightarrow> Inl TypeError)"

text \<open>
  The module body of \<open>llm.py\<close> after \<open>data = r.json()\<close>. It calls \<open>print\<close> once; the
  result is the tuple of the arguments of that call, or the exception that ends the
  script.
\<close>

definition llm_script :: "pyobj \<Rightarrow> error + pyobj list" where
  "llm_script data =
     (case py_in (u ''choices'') data of
        Inl e \<Rightarrow> Inl e
      | Inr found \<Rightarrow>
          if found then
            (case getitem_str data (u ''choices'') of
               Inl e \<Rightarrow> Inl e
             | Inr choices \<Rightarrow>
                 (case getitem_0 choices of
                    Inl e \<Rightarrow> Inl e
                  | Inr choice \<Rightarrow>
                      (case getitem_str choice (u ''message'') of
                         Inl e \<Rightarrow> Inl e
                       | Inr message \<Rightarrow>
                           (case getitem_str message (u ''content'') of
                              Inl e \<Rightarrow> Inl e
                            | Inr content \<Rightarrow> Inr [content]))))
          else Inr [PStr (u ''ERROR:''), data])"

text \<open>
  The strings an item carries: its tag, its text, and the names and values of its
  attribute mapping.
\<close>

definition item_strings :: "ControlItem \<Rightarrow> ustring list" where
  "item_strings it =
     tag it # (case text it of None \<Rightarrow> [] | Some t \<Rightarrow> [t])
     @ (case attrs it of None \<Rightarrow> [] | Some a \<Rightarrow> map fst a @ map snd a)"

section \<open>Worked documents\<close>

text \<open>
  The parsed trees of small documents, used to run the extractor.
  \<open>scenario_soup\<close> is the tree of
  \<^verbatim>\<open><button aria-hidden="true">Hi</button><a href="/x" data-testid="link1">Click here</a>\<close>,
  \<open>hidden_input_soup\<close> the tree of \<^verbatim>\<open><input type="hidden" value="abc">\<close>, and
  \<open>two_hidden_soup\<close> that of
  \<^verbatim>\<open><button aria-hidden="TRUE" id="b">Hi</button><input type="Hidden" value="abc">\<close>.
\<close>

definition scenario_soup :: "node list" where
  "scenario_soup =
     [Tag (u ''button'') [(u ''aria-hidden'', VStr (u ''true''))]
        [PageString NavigableString (u ''Hi'')],
      Tag (u ''a'') [(u ''href'', VStr (u ''/x'')), (u ''data-testid'', VStr (u ''link1''))]
        [PageString NavigableString (u ''Click here'')]]"

definition hidden_input_soup :: "node list" where
  "hidden_input_soup =
     [Tag (u ''input'') [(u ''type'', VStr (u ''hidden'')), (u ''value'', VStr (u ''abc''))] []]"

definition two_hidden_soup :: "node list" where
  "two_hidden_soup =
     [Tag (u ''button'') [(u ''aria-hidden'', VStr (u ''TRUE'')), (u ''id'', VStr (u ''b''))]
        [PageString NavigableString (u ''Hi'')],
      Tag (u ''input'') [(u ''type'', VStr (u ''Hidden'')), (u ''value'', VStr (u ''abc''))] []]"

text \<open>
  \<open>long_button_soup\<close> is a \<open>button\<close> around one text node of a hundred letters
  \<open>a\<close>; \<open>short_button_soup\<close> is \<^verbatim>\<open><button>abcdef</button>\<close>.
\<close>

definition long_button_soup :: "node list" where
  "long_button_soup = [Tag (u ''button'') [] [PageString NavigableString (replicate 100 97)]]"

definition short_button_soup :: "node list" where
  "short_button_soup = [Tag (u ''button'') [] [PageString NavigableString (u ''abcdef'')]]"

text \<open>
  \<open>bare_button_soup\<close> is \<^verbatim>\<open><button class="big"></button><a href="/x"></a>\<close>,
  \<open>hidden_ancestor_soup\<close> is
  \<^verbatim>\<open><div aria-hidden="true"><button>Go</button></div>\<close>, and \<open>nested_soup\<close> is
  \<^verbatim>\<open><label>A<input id="i"></label><button>B</button>\<close>.
\<close>

definition bare_button_soup :: "node list" where
  "bare_button_soup =
     [Tag (u ''button'') [(u ''class'', VList [Some (u ''big'')])] [],
      Tag (u ''a'') [(u ''href'', VStr (u ''/x''))] []]"

definition hidden_ancestor_soup :: "node list" where
  "hidden_ancestor_soup =
     [Tag (u ''div'') [(u ''aria-hidden'', VStr (u ''true''))]
        [Tag (u ''button'') [] [PageString NavigableString (u ''Go'')]]]"

definition nested_soup :: "node list" where
  "nested_soup =
     [Tag (u ''label'') []
        [PageString NavigableString (u ''A''), Tag (u ''input'') [(u ''id'', VStr (u ''i''))] []],
      Tag (u ''button'') [] [PageString NavigableString (u ''B'')]]"

text \<open>
  \<open>hooks_element\<close> is a link with a multi-valued \<open>class\<close>, two testing hooks (one
  of them list-valued with a \<open>None\<close> entry) and an attribute whose value is \<open>None\<close>.
\<close>

definition hooks_element :: element where
  "hooks_element =
     \<lparr>el_name = u ''a'',
      el_attrs = [(u ''class'', VList [Some (u ''btn''), Some (u ''big'')]),
                  (u ''data-testid'', VStr (u ''link1'')),
                  (u ''data-test-foo'', VList [Some (u ''x''), None, Some (u ''y'')]),
                  (u ''title'', VNone)],
      el_contents = []\<rparr>"

text \<open>
  Two items for the serializer: one whose text is the single letter U+00E9, and one
  whose text and attribute mapping are present but empty.
\<close>

definition accented_item :: ControlItem where
  "accented_item = \<lparr>tag = u ''a'', text = Some [233], attrs = None\<rparr>"

definition hollow_item :: ControlItem where
  "hollow_item = \<lparr>tag = u ''b'', text = Some [], attrs = Some []\<rparr>"

section \<open>Evaluation on concrete documents\<close>

lemmas str_eval = u_def isspace_def str_strip_def str_split_def lower_char_def str_lower_def
  str_startswith_def slice_to_def

lemmas tree_eval = is_comment_def remove_comments_def is_noise_def remove_noise_def NOISE_TAGS_def
  attr_text_def matches_control_selector_def select_controls_def control_tags_def
  control_roles_def get_text_def el_get_def

lemmas extract_eval = normalize_text_def or_empty_lower_def is_hidden_def filter_attrs_def
  KEEP_ATTRS_def truncate_text_def control_item_def extract_controls_inventory_def
  List.map_filter_def ELLIPSIS_def

section \<open>The extraction loop\<close>

text \<open>
  The loop runs over the selected elements in order; its result is the concatenation of
  what each element contributes, and it raises as soon as one element does.
\<close>

lemma extract_loop_append:
  "extract_loop n (xs @ ys) =
     (case extract_loop n xs of
        Inl e \<Rightarrow> Inl e
      | Inr a \<Rightarrow> (case extract_loop n ys of Inl e \<Rightarrow> Inl e | Inr b \<Rightarrow> Inr (a @ b)))"
  by (induction xs) (auto split: sum.splits option.splits)

lemma extract_loop_skip:
  "control_item n el = Inr None \<Longrightarrow> extract_loop n (xs @ el # ys) = extract_loop n (xs @ ys)"
  by (simp add: extract_loop_append split: sum.splits)

lemma extract_loop_returns:
  "extract_loop n els = Inr items \<Longrightarrow> el \<in> set els \<Longrightarrow> \<exists>r. control_item n el = Inr r"
  by (induction els arbitrary: items) (auto split: sum.splits)

lemma extract_loop_member:
  "extract_loop n els = Inr items \<Longrightarrow> el \<in> set els \<Longrightarrow> control_item n el = Inr (Some it)
     \<Longrightarrow> it \<in> set items"
  by (induction els arbitrary: items) (auto split: sum.splits option.splits)

lemma extract_loop_origin:
  "extract_loop n els = Inr items \<Longrightarrow> it \<in> set items
     \<Longrightarrow> \<exists>el \<in> set els. control_item n el = Inr (Some it)"
  by (induction els arbitrary: items) (auto split: sum.splits option.splits)

lemma extract_loop_map_filter:
  "extract_loop n els = Inr items \<Longrightarrow>
     items = List.map_filter (\<lambda>el. case control_item n el of Inl e \<Rightarrow> None | Inr r \<Rightarrow> r) els"
  by (induction els arbitrary: items) (auto simp: List.map_filter_simps split: sum.splits option.splits)

lemma ELLIPSIS_nonempty: "ELLIPSIS \<noteq> []"
  by (simp add: ELLIPSIS_def)

lemma truncate_text_empty_iff: "truncate_text n t = [] \<longleftrightarrow> t = []"
  by (simp add: truncate_text_def ELLIPSIS_nonempty)

lemma control_item_SomeD:
  assumes "control_item n el = Inr (Some it)"
  shows "is_hidden el = Inr False"
    and "tag it = el_name el"
    and "text it = (if normalize_text (get_text (u '' '') el) = [] then None
                    else Some (truncate_text n (normalize_text (get_text (u '' '') el))))"
    and "attrs it = (if filter_attrs el KEEP_ATTRS = [] then None
                     else Some (filter_attrs el KEEP_ATTRS))"
    and "normalize_text (get_text (u '' '') el) \<noteq> [] \<or> filter_attrs el KEEP_ATTRS \<noteq> []"
  using assms
  by (auto simp: control_item_def Let_def truncate_text_empty_iff split: sum.splits if_splits)

lemma control_item_visible:
  assumes "is_hidden el = Inr False"
  shows "control_item n el =
     (if normalize_text (get_text (u '' '') el) = [] \<and> filter_attrs el KEEP_ATTRS = [] then Inr None
      else Inr (Some \<lparr>tag = el_name el,
          text = (if normalize_text (get_text (u '' '') el) = [] then None
                    else Some (truncate_text n (normalize_text (get_text (u '' '') el)))),
          attrs = (if filter_attrs el KEEP_ATTRS = [] then None
                     else Some (filter_attrs el KEEP_ATTRS))\<rparr>))"
  using assms by (simp add: control_item_def Let_def truncate_text_empty_iff)

lemma control_item_hidden: "is_hidden el = Inr True \<Longrightarrow> control_item n el = Inr None"
  by (simp add: control_item_def)

lemma control_item_returns_hidden:
  "control_item n el = Inr r \<Longrightarrow> \<exists>b. is_hidden el = Inr b"
  by (cases "is_hidden el") (simp_all add: control_item_def)

subsection \<open>Hidden elements\<close>

lemma is_hidden_aria:
  assumes "map_of (el_attrs el) (u ''aria-hidden'') = Some (VStr v)" and "str_lower v = u ''true''"
  shows "is_hidden el = Inr True"
  using assms by (simp add: is_hidden_def el_get_def or_empty_lower_def)

lemma is_hidden_input:
  assumes "el_name el = u ''input''"
    and "map_of (el_attrs el) (u ''type'') = Some (VStr v)" and "str_lower v = u ''hidden''"
    and "is_hidden el = Inr b"
  shows "b"
  using assms
  by (auto simp: is_hidden_def el_get_def or_empty_lower_def split: sum.splits if_splits)

lemma is_hidden_no_aria:
  assumes "map_of (el_attrs el) (u ''aria-hidden'') = None"
    and "el_name el = u ''input'' \<longrightarrow>
           (\<forall>v. map_of (el_attrs el) (u ''type'') = Some (VStr v) \<longrightarrow> str_lower v \<noteq> u ''hidden'')"
    and "is_hidden el = Inr b"
  shows "\<not> b"
  using assms
  by (auto simp: is_hidden_def el_get_def or_empty_lower_def str_eval
      split: sum.splits if_splits option.splits attr_value.splits)

lemma hidden_element_skipped:
  assumes "extract_controls_inventory soup max_text_len = Inr items"
    and "select_controls (remove_noise (remove_comments soup)) = xs @ el # ys"
    and "(\<exists>v. map_of (el_attrs el) (u ''aria-hidden'') = Some (VStr v) \<and> str_lower v = u ''true'')
         \<or> (el_name el = u ''input''
             \<and> (\<exists>v. map_of (el_attrs el) (u ''type'') = Some (VStr v) \<and> str_lower v = u ''hidden''))"
  shows "control_item max_text_len el = Inr None \<and> extract_loop max_text_len (xs @ ys) = Inr items"
proof -
  have run: "extract_loop max_text_len (xs @ el # ys) = Inr items"
    using assms(1,2) by (simp add: extract_controls_inventory_def)
  then obtain r where "control_item max_text_len el = Inr r"
    using extract_loop_returns [of max_text_len "xs @ el # ys" items el] by auto
  then obtain b where b: "is_hidden el = Inr b"
    using control_item_returns_hidden by blast
  have "b"
    using assms(3)
  proof
    assume "\<exists>v. map_of (el_attrs el) (u ''aria-hidden'') = Some (VStr v) \<and> str_lower v = u ''true''"
    then show "b" using is_hidden_aria b by auto
  next
    assume "el_name el = u ''input''
             \<and> (\<exists>v. map_of (el_attrs el) (u ''type'') = Some (VStr v) \<and> str_lower v = u ''hidden'')"
    then show "b" using is_hidden_input b by blast
  qed
  with b have skip: "control_item max_text_len el = Inr None"
    by (simp add: control_item_hidden)
  with run show ?thesis
    by (simp add: extract_loop_skip)
qed

lemma hidden_input_soup_output: "extract_controls_inventory hidden_input_soup n = Inr []"
  by (simp add: hidden_input_soup_def tree_eval str_eval extract_eval)

text \<open>
  The extraction raises only where \<open>_is_hidden\<close> calls \<open>lower\<close> on a list. The
  parser builds lists for the multi-valued attributes only, and \<open>aria-hidden\<close> and
  \<open>type\<close> are not among them; on such a tree the extraction returns.
\<close>

lemma is_hidden_returns:
  assumes "\<forall>xs. map_of (el_attrs el) (u ''aria-hidden'') \<noteq> Some (VList xs)"
    and "\<forall>xs. map_of (el_attrs el) (u ''type'') \<noteq> Some (VList xs)"
  shows "\<exists>b. is_hidden el = Inr b"
proof -
  have a: "\<exists>s. or_empty_lower (el_get el (u ''aria-hidden'')) = Inr s"
    using assms(1)
    by (cases "map_of (el_attrs el) (u ''aria-hidden'')")
      (auto simp: el_get_def or_empty_lower_def split: attr_value.splits)
  have t: "\<exists>s. or_empty_lower (el_get el (u ''type'')) = Inr s"
    using assms(2)
    by (cases "map_of (el_attrs el) (u ''type'')")
      (auto simp: el_get_def or_empty_lower_def split: attr_value.splits)
  from a t show ?thesis
    by (auto simp: is_hidden_def)
qed

lemma control_item_returns:
  "is_hidden el = Inr b \<Longrightarrow> \<exists>r. control_item n el = Inr r"
  by (simp add: control_item_def Let_def)

lemma extract_loop_total:
  "\<forall>el \<in> set els. \<exists>r. control_item n el = Inr r \<Longrightarrow> \<exists>items. extract_loop n els = Inr items"
  by (induction els) auto

lemma extract_controls_inventory_returns:
  assumes "\<forall>el \<in> set (select_controls (remove_noise (remove_comments soup))).
             (\<forall>xs. map_of (el_attrs el) (u ''aria-hidden'') \<noteq> Some (VList xs))
             \<and> (\<forall>xs. map_of (el_attrs el) (u ''type'') \<noteq> Some (VList xs))"
  shows "\<exists>items. extract_controls_inventory soup n = Inr items"
proof -
  have "\<forall>el \<in> set (select_controls (remove_noise (remove_comments soup))).
          \<exists>r. control_item n el = Inr r"
    using assms is_hidden_returns control_item_returns by blast
  then show ?thesis
    unfolding extract_controls_inventory_def by (rule extract_loop_total)
qed

subsection \<open>Text without whitespace\<close>

lemma split_from_no_space:
  "\<forall>c \<in> set s. \<not> isspace c \<Longrightarrow> split_from w s = (if w @ s = [] then [] else [w @ s])"
  by (induction s arbitrary: w) auto

lemma dropWhile_none: "\<forall>x \<in> set xs. \<not> P x \<Longrightarrow> dropWhile P xs = xs"
  by (cases xs) auto

lemma str_strip_no_space: "\<forall>c \<in> set s. \<not> isspace c \<Longrightarrow> str_strip s = s"
  by (simp add: str_strip_def dropWhile_none)

lemma normalize_text_no_space:
  "\<forall>c \<in> set s. \<not> isspace c \<Longrightarrow> normalize_text s = s"
  by (cases "s = []")
    (simp_all add: normalize_text_def str_split_def split_from_no_space str_strip_no_space)

lemma not_isspace_97: "\<not> isspace 97"
  by (simp add: isspace_def)

lemma long_button_text:
  "normalize_text (get_text (u '' '')
     \<lparr>el_name = u ''button'', el_attrs = [], el_contents = [PageString NavigableString (replicate 100 97)]\<rparr>)
   = replicate 100 97"
proof -
  have ns: "\<forall>c \<in> set (replicate 100 (97::nat)). \<not> isspace c"
    by (simp add: not_isspace_97)
  have "get_text (u '' '')
     \<lparr>el_name = u ''button'', el_attrs = [], el_contents = [PageString NavigableString (replicate 100 97)]\<rparr>
     = replicate 100 97"
    using str_strip_no_space [OF ns] by (simp add: get_text_def)
  then show ?thesis
    using normalize_text_no_space [OF ns] by simp
qed

lemma long_button_output:
  "extract_controls_inventory long_button_soup 80 =
     Inr [\<lparr>tag = u ''button'', text = Some (replicate 79 97 @ ELLIPSIS), attrs = None\<rparr>]"
proof -
  have sel: "select_controls (remove_noise (remove_comments long_button_soup)) =
    [\<lparr>el_name = u ''button'', el_attrs = [], el_contents = [PageString NavigableString (replicate 100 97)]\<rparr>]"
    by (simp add: long_button_soup_def tree_eval str_eval)
  have hid: "is_hidden \<lparr>el_name = u ''button'', el_attrs = [], el_contents = [PageString NavigableString (replicate 100 97)]\<rparr> = Inr False"
    by (simp add: is_hidden_def el_get_def or_empty_lower_def str_eval)
  have tr: "truncate_text 80 (replicate 100 97) = replicate 79 97 @ ELLIPSIS"
    by (simp add: truncate_text_def slice_to_def)
  have fa: "filter_attrs \<lparr>el_name = u ''button'', el_attrs = [], el_contents = [PageString NavigableString (replicate 100 97)]\<rparr> KEEP_ATTRS = []"
    by (simp add: filter_attrs_def)
  have ne: "replicate 100 (97::nat) \<noteq> []" by simp
  show ?thesis
    unfolding extract_controls_inventory_def sel
    by (simp add: control_item_visible [OF hid] long_button_text tr fa ne)
qed

subsection \<open>The loop of the attribute filter\<close>

lemma update_fresh: "k \<notin> fst ` set al \<Longrightarrow> AList.update k v al = al @ [(k, v)]"
  by (induction al) auto

lemma filter_attrs_loop_keys:
  "fst ` set (filter_attrs_loop keep kvs out) =
     fst ` set out
     \<union> {k. (k \<in> keep \<or> str_startswith k (u ''data-test'')) \<and> (\<exists>v. (k, v) \<in> set kvs \<and> v \<noteq> VNone)}"
proof (induction keep kvs out rule: filter_attrs_loop.induct)
  case (1 keep out)
  then show ?case by simp
next
  case (2 keep k v kvs out)
  show ?case
  proof (cases "k \<in> keep \<or> str_startswith k (u ''data-test'')")
    case False
    then show ?thesis using 2 by auto
  next
    case True
    then show ?thesis
      using 2 by (cases v) (auto simp: dom_update)
  qed
qed

lemma filter_attrs_loop_distinct:
  "distinct (map fst kvs) \<Longrightarrow> fst ` set kvs \<inter> fst ` set out = {} \<Longrightarrow>
   filter_attrs_loop keep kvs out =
     out @ map (\<lambda>kv. (fst kv,
                  case snd kv of
                    VNone \<Rightarrow> []
                  | VStr s \<Rightarrow> s
                  | VList xs \<Rightarrow> str_join (u '' '') (List.map_filter (\<lambda>x. x) xs)))
             (filter (\<lambda>kv. (fst kv \<in> keep \<or> str_startswith (fst kv) (u ''data-test''))
                           \<and> snd kv \<noteq> VNone) kvs)"
proof (induction keep kvs out rule: filter_attrs_loop.induct)
  case (1 keep out)
  then show ?case by simp
next
  case (2 keep k v kvs out)
  have fresh: "k \<notin> fst ` set out" using "2.prems"(2) by auto
  have d: "distinct (map fst kvs)" using "2.prems"(1) by simp
  have knew: "k \<notin> fst ` set kvs" using "2.prems"(1) by simp
  have rest: "fst ` set kvs \<inter> fst ` set out = {}" using "2.prems"(2) by auto
  show ?case
  proof (cases "k \<in> keep \<or> str_startswith k (u ''data-test'')")
    case False
    then show ?thesis using "2.IH"(4) d rest by simp
  next
    case True
    show ?thesis
    proof (cases v)
      case VNone
      then show ?thesis using True "2.IH"(1) d rest by simp
    next
      case (VStr s)
      have "fst ` set kvs \<inter> fst ` set (AList.update k s out) = {}"
        using rest knew by (auto simp: dom_update)
      from "2.IH"(2) [OF True VStr d this] show ?thesis
        using True VStr fresh by (simp add: update_fresh)
    next
      case (VList xs)
      have "fst ` set kvs \<inter> fst ` set (AList.update k (str_join (u '' '') (List.map_filter (\<lambda>x. x) xs)) out) = {}"
        using rest knew by (auto simp: dom_update)
      from "2.IH"(3) [OF True VList d this] show ?thesis
        using True VList fresh by (simp add: update_fresh)
    qed
  qed
qed

lemma filter_attrs_distinct:
  assumes "distinct (map fst (el_attrs el))"
  shows "filter_attrs el keep =
     map (\<lambda>kv. (fst kv,
                  case snd kv of
                    VNone \<Rightarrow> []
                  | VStr s \<Rightarrow> s
                  | VList xs \<Rightarrow> str_join (u '' '') (List.map_filter (\<lambda>x. x) xs)))
         (filter (\<lambda>kv. (fst kv \<in> keep \<or> str_startswith (fst kv) (u ''data-test''))
                           \<and> snd kv \<noteq> VNone) (el_attrs el))"
  using filter_attrs_loop_distinct [OF assms, of "[]" keep] by (simp add: filter_attrs_def)

lemma filter_attrs_keys:
  "fst ` set (filter_attrs el keep) =
     {k. (k \<in> keep \<or> str_startswith k (u ''data-test'')) \<and> (\<exists>v. (k, v) \<in> set (el_attrs el) \<and> v \<noteq> VNone)}"
  by (simp add: filter_attrs_def filter_attrs_loop_keys)

lemma class_not_kept: "\<not> (u ''class'' \<in> KEEP_ATTRS \<or> str_startswith (u ''class'') (u ''data-test''))"
  by (simp add: KEEP_ATTRS_def str_eval)

lemma data_testid_kept: "u ''data-testid'' \<in> KEEP_ATTRS"
  by (simp add: KEEP_ATTRS_def)

lemma data_test_foo_kept: "str_startswith (u ''data-test-foo'') (u ''data-test'')"
  by (simp add: str_eval)

section \<open>Text truncation\<close>

text \<open>
  C1, as the code has it. Let \<open>t\<close> be the normalized text of a selected element that
  emits the Control Item \<open>it\<close>. The item is in the output. For a limit
  \<open>max_text_len\<close> of at least 1, when \<open>t\<close> is longer than the limit the emitted text is
  the first \<open>max_text_len - 1\<close> characters of \<open>t\<close> followed by the literal
  \<open>ELLIPSIS\<close>, so it ends with the marker. For every limit, when \<open>t\<close> is at or below
  the limit it is emitted unmodified, and is absent when empty.
\<close>

theorem text_truncation:
  assumes "extract_controls_inventory soup max_text_len = Inr items"
    and "el \<in> set (select_controls (remove_noise (remove_comments soup)))"
    and "control_item max_text_len el = Inr (Some it)"
    and "t = normalize_text (get_text (u '' '') el)"
  shows "it \<in> set items
     \<and> (1 \<le> max_text_len \<and> max_text_len < int (length t)
          \<longrightarrow> text it = Some (take (nat (max_text_len - 1)) t @ ELLIPSIS)
              \<and> length (take (nat (max_text_len - 1)) t) = nat (max_text_len - 1))
     \<and> (int (length t) \<le> max_text_len \<longrightarrow> text it = (if t = [] then None else Some t))"
proof (intro conjI impI)
  show "it \<in> set items"
    using assms(1-3) extract_loop_member by (simp add: extract_controls_inventory_def)
next
  assume a: "1 \<le> max_text_len \<and> max_text_len < int (length t)"
  then have "t \<noteq> []" by auto
  with a show "text it = Some (take (nat (max_text_len - 1)) t @ ELLIPSIS)"
    using control_item_SomeD(3) [OF assms(3)] assms(4)
    by (simp add: truncate_text_def slice_to_def)
  from a show "length (take (nat (max_text_len - 1)) t) = nat (max_text_len - 1)"
    by auto
next
  assume "int (length t) \<le> max_text_len"
  then show "text it = (if t = [] then None else Some t)"
    using control_item_SomeD(3) [OF assms(3)] assms(4)
    by (simp add: truncate_text_def)
qed

text \<open>
  C1, witness: \<^verbatim>\<open><button>abcdef</button>\<close> with the limit 3 gives \<open>ab\<close> and the
  marker, and with the limit 80 gives \<open>abcdef\<close>.
\<close>

lemma short_button_select:
  "select_controls (remove_noise (remove_comments short_button_soup)) =
     [\<lparr>el_name = u ''button'', el_attrs = [], el_contents = [PageString NavigableString (u ''abcdef'')]\<rparr>]"
  by (simp add: short_button_soup_def tree_eval str_eval)

lemma short_button_text:
  "normalize_text (get_text (u '' '')
     \<lparr>el_name = u ''button'', el_attrs = [], el_contents = [PageString NavigableString (u ''abcdef'')]\<rparr>)
   = u ''abcdef''"
  by (simp add: tree_eval str_eval extract_eval)

lemma short_button_item_3:
  "control_item 3 \<lparr>el_name = u ''button'', el_attrs = [], el_contents = [PageString NavigableString (u ''abcdef'')]\<rparr>
     = Inr (Some \<lparr>tag = u ''button'', text = Some (u ''ab'' @ ELLIPSIS), attrs = None\<rparr>)"
  by (simp add: tree_eval str_eval extract_eval)

lemma short_button_item_80:
  "control_item 80 \<lparr>el_name = u ''button'', el_attrs = [], el_contents = [PageString NavigableString (u ''abcdef'')]\<rparr>
     = Inr (Some \<lparr>tag = u ''button'', text = Some (u ''abcdef''), attrs = None\<rparr>)"
  by (simp add: tree_eval str_eval extract_eval)

theorem text_truncation_witness:
  "text \<lparr>tag = u ''button'', text = Some (u ''ab'' @ ELLIPSIS), attrs = None\<rparr>
     = Some (take (nat (3 - 1)) (u ''abcdef'') @ ELLIPSIS)
   \<and> text \<lparr>tag = u ''button'', text = Some (u ''abcdef''), attrs = None\<rparr> = Some (u ''abcdef'')
   \<and> extract_controls_inventory short_button_soup 3
       = Inr [\<lparr>tag = u ''button'', text = Some (u ''ab'' @ ELLIPSIS), attrs = None\<rparr>]"
proof -
  have o3: "extract_controls_inventory short_button_soup 3
       = Inr [\<lparr>tag = u ''button'', text = Some (u ''ab'' @ ELLIPSIS), attrs = None\<rparr>]"
    unfolding extract_controls_inventory_def short_button_select
    by (simp add: short_button_item_3)
  have o80: "extract_controls_inventory short_button_soup 80
       = Inr [\<lparr>tag = u ''button'', text = Some (u ''abcdef''), attrs = None\<rparr>]"
    unfolding extract_controls_inventory_def short_button_select
    by (simp add: short_button_item_80)
  have m: "\<lparr>el_name = u ''button'', el_attrs = [], el_contents = [PageString NavigableString (u ''abcdef'')]\<rparr>
     \<in> set (select_controls (remove_noise (remove_comments short_button_soup)))"
    by (simp add: short_button_select)
  have len: "int (length (u ''abcdef'')) = 6" by (simp add: u_def)
  have 1: "text \<lparr>tag = u ''button'', text = Some (u ''ab'' @ ELLIPSIS), attrs = None\<rparr>
     = Some (take (nat (3 - 1)) (u ''abcdef'') @ ELLIPSIS)"
    using text_truncation [OF o3 m short_button_item_3 short_button_text [symmetric]] len
    by simp
  have 2: "text \<lparr>tag = u ''button'', text = Some (u ''abcdef''), attrs = None\<rparr> = Some (u ''abcdef'')"
    using text_truncation [OF o80 m short_button_item_80 short_button_text [symmetric]] len
    by simp
  from 1 2 o3 show ?thesis by simp
qed

text \<open>
  C1 as stated fails. With the limit 0 the text \<open>a\<close> is longer than the limit and
  the emitted text is the marker alone, whose length is not 0. With the limit 80 a text
  of a hundred characters is emitted as 79 characters and the literal \<open>ELLIPSIS\<close>, which
  the source spells with three code points: 82 characters, not 80.
\<close>

theorem truncated_text_longer_than_limit:
  "extract_controls_inventory [Tag (u ''button'') [] [PageString NavigableString (u ''a'')]] 0
     = Inr [\<lparr>tag = u ''button'', text = Some ELLIPSIS, attrs = None\<rparr>]
   \<and> int (length ELLIPSIS) \<noteq> 0
   \<and> extract_controls_inventory long_button_soup 80
     = Inr [\<lparr>tag = u ''button'', text = Some (replicate 79 97 @ ELLIPSIS), attrs = None\<rparr>]
   \<and> length (replicate 79 (97::nat) @ ELLIPSIS) = 82
   \<and> int (length (replicate 79 (97::nat) @ ELLIPSIS)) \<noteq> 80"
proof -
  have "extract_controls_inventory [Tag (u ''button'') [] [PageString NavigableString (u ''a'')]] 0
     = Inr [\<lparr>tag = u ''button'', text = Some ELLIPSIS, attrs = None\<rparr>]"
    by (simp add: tree_eval str_eval extract_eval)
  then show ?thesis
    by (simp add: long_button_output) (simp add: ELLIPSIS_def)
qed

section \<open>Hidden elements are excluded\<close>

text \<open>
  C3. Let the extraction return \<open>items\<close> and let \<open>el\<close> be a selected element, with
  \<open>xs\<close> the selected elements before it and \<open>ys\<close> those after it. If \<open>el\<close> has an
  \<open>aria-hidden\<close> attribute whose lower-cased value is \<open>true\<close>, or is an \<open>input\<close>
  whose lower-cased \<open>type\<close> is \<open>hidden\<close>, then \<open>el\<close> emits no item, whatever its
  other attributes and its text are, and \<open>items\<close> is what the loop yields on the other
  selected elements alone. The document \<^verbatim>\<open><input type="hidden" value="abc">\<close>
  yields the empty sequence for every limit.
\<close>

theorem hidden_elements_never_emitted:
  "(extract_controls_inventory soup max_text_len = Inr items
      \<and> select_controls (remove_noise (remove_comments soup)) = xs @ el # ys
      \<and> ((\<exists>v. map_of (el_attrs el) (u ''aria-hidden'') = Some (VStr v) \<and> str_lower v = u ''true'')
          \<or> (el_name el = u ''input''
              \<and> (\<exists>v. map_of (el_attrs el) (u ''type'') = Some (VStr v)
                      \<and> str_lower v = u ''hidden'')))
    \<longrightarrow> control_item max_text_len el = Inr None
        \<and> extract_loop max_text_len (xs @ ys) = Inr items)
   \<and> extract_controls_inventory hidden_input_soup n = Inr []"
  using hidden_element_skipped [of soup max_text_len items xs el ys] hidden_input_soup_output
  by blast

text \<open>
  C3, witness: in \<open>two_hidden_soup\<close> the button with \<open>aria-hidden="TRUE"\<close>, an
  \<open>id\<close> and a text, and the input with \<open>type="Hidden"\<close>, are both left out.
\<close>

theorem hidden_elements_never_emitted_witness:
  "control_item 80 \<lparr>el_name = u ''button'',
           el_attrs = [(u ''aria-hidden'', VStr (u ''TRUE'')), (u ''id'', VStr (u ''b''))],
           el_contents = [PageString NavigableString (u ''Hi'')]\<rparr> = Inr None
   \<and> extract_loop 80
        ([] @ [\<lparr>el_name = u ''input'',
               el_attrs = [(u ''type'', VStr (u ''Hidden'')), (u ''value'', VStr (u ''abc''))],
               el_contents = []\<rparr>]) = Inr []
   \<and> control_item 80 \<lparr>el_name = u ''input'',
           el_attrs = [(u ''type'', VStr (u ''Hidden'')), (u ''value'', VStr (u ''abc''))],
           el_contents = []\<rparr> = Inr None
   \<and> extract_loop 80
        ([\<lparr>el_name = u ''button'',
            el_attrs = [(u ''aria-hidden'', VStr (u ''TRUE'')), (u ''id'', VStr (u ''b''))],
            el_contents = [PageString NavigableString (u ''Hi'')]\<rparr>] @ []) = Inr []"
proof -
  let ?b = "\<lparr>el_name = u ''button'',
           el_attrs = [(u ''aria-hidden'', VStr (u ''TRUE'')), (u ''id'', VStr (u ''b''))],
           el_contents = [PageString NavigableString (u ''Hi'')]\<rparr>"
  let ?i = "\<lparr>el_name = u ''input'',
           el_attrs = [(u ''type'', VStr (u ''Hidden'')), (u ''value'', VStr (u ''abc''))],
           el_contents = []\<rparr>"
  have out: "extract_controls_inventory two_hidden_soup 80 = Inr []"
    by (simp add: two_hidden_soup_def tree_eval str_eval extract_eval)
  have sel1: "select_controls (remove_noise (remove_comments two_hidden_soup)) = [] @ ?b # [?i]"
    by (simp add: two_hidden_soup_def tree_eval str_eval)
  have sel2: "select_controls (remove_noise (remove_comments two_hidden_soup)) = [?b] @ ?i # []"
    by (simp add: two_hidden_soup_def tree_eval str_eval)
  have hb: "\<exists>v. map_of (el_attrs ?b) (u ''aria-hidden'') = Some (VStr v) \<and> str_lower v = u ''true''"
    by (simp add: str_eval)
  have hi: "el_name ?i = u ''input''
      \<and> (\<exists>v. map_of (el_attrs ?i) (u ''type'') = Some (VStr v) \<and> str_lower v = u ''hidden'')"
    by (simp add: str_eval)
  have 1: "control_item 80 ?b = Inr None \<and> extract_loop 80 ([] @ [?i]) = Inr []"
    using hidden_elements_never_emitted [of two_hidden_soup 80 "[]" "[]" ?b "[?i]"] out sel1 hb
    by blast
  have 2: "control_item 80 ?i = Inr None \<and> extract_loop 80 ([?b] @ []) = Inr []"
    using hidden_elements_never_emitted [of two_hidden_soup 80 "[]" "[?b]" ?i "[]"] out sel2 hi
    by blast
  from 1 2 show ?thesis by blast
qed

section \<open>Attribute filtering\<close>

text \<open>
  C4. The names of the filtered mapping of an element are exactly the names of its
  attributes with a value other than \<open>None\<close> that are in the allow-list or start with
  \<open>data-test\<close>. So \<open>data-testid\<close> and \<open>data-test-foo\<close> are kept whenever the element
  has them with a value, and \<open>class\<close> never is. When the names of the element's
  attributes are distinct, as the keys of a dict are, the mapping is the list of the
  kept attributes in their order, a list value joined by single spaces. The emitted
  item carries this mapping, or none when it is empty.
\<close>

theorem attribute_filtering:
  "fst ` set (filter_attrs el KEEP_ATTRS) =
     {k. (k \<in> {u ''id'', u ''name'', u ''type'', u ''placeholder'', u ''value'', u ''href'',
               u ''for'', u ''role'', u ''aria-label'', u ''aria-labelledby'',
               u ''aria-describedby'', u ''data-testid'', u ''data-test'', u ''data-qa''}
          \<or> str_startswith k (u ''data-test''))
         \<and> (\<exists>v. (k, v) \<in> set (el_attrs el) \<and> v \<noteq> VNone)}
   \<and> ((u ''data-testid'', v) \<in> set (el_attrs el) \<and> v \<noteq> VNone
        \<longrightarrow> u ''data-testid'' \<in> fst ` set (filter_attrs el KEEP_ATTRS))
   \<and> u ''class'' \<notin> fst ` set (filter_attrs el KEEP_ATTRS)
   \<and> ((u ''data-test-foo'', v) \<in> set (el_attrs el) \<and> v \<noteq> VNone
        \<longrightarrow> u ''data-test-foo'' \<in> fst ` set (filter_attrs el KEEP_ATTRS))
   \<and> (distinct (map fst (el_attrs el)) \<longrightarrow>
        filter_attrs el KEEP_ATTRS =
          map (\<lambda>kv. (fst kv,
                  case snd kv of
                    VNone \<Rightarrow> []
                  | VStr s \<Rightarrow> s
                  | VList xs \<Rightarrow> str_join (u '' '') (List.map_filter (\<lambda>x. x) xs)))
            (filter (\<lambda>kv. (fst kv \<in> KEEP_ATTRS \<or> str_startswith (fst kv) (u ''data-test''))
                           \<and> snd kv \<noteq> VNone) (el_attrs el)))
   \<and> (control_item max_text_len el = Inr (Some it) \<longrightarrow>
        attrs it = (if filter_attrs el KEEP_ATTRS = [] then None
                    else Some (filter_attrs el KEEP_ATTRS)))"
proof (intro conjI impI)
  show "fst ` set (filter_attrs el KEEP_ATTRS) =
     {k. (k \<in> {u ''id'', u ''name'', u ''type'', u ''placeholder'', u ''value'', u ''href'',
               u ''for'', u ''role'', u ''aria-label'', u ''aria-labelledby'',
               u ''aria-describedby'', u ''data-testid'', u ''data-test'', u ''data-qa''}
          \<or> str_startswith k (u ''data-test''))
         \<and> (\<exists>v. (k, v) \<in> set (el_attrs el) \<and> v \<noteq> VNone)}"
    unfolding filter_attrs_keys KEEP_ATTRS_def ..
next
  assume "(u ''data-testid'', v) \<in> set (el_attrs el) \<and> v \<noteq> VNone"
  then show "u ''data-testid'' \<in> fst ` set (filter_attrs el KEEP_ATTRS)"
    unfolding filter_attrs_keys using data_testid_kept by blast
next
  show "u ''class'' \<notin> fst ` set (filter_attrs el KEEP_ATTRS)"
    unfolding filter_attrs_keys using class_not_kept by blast
next
  assume "(u ''data-test-foo'', v) \<in> set (el_attrs el) \<and> v \<noteq> VNone"
  then show "u ''data-test-foo'' \<in> fst ` set (filter_attrs el KEEP_ATTRS)"
    unfolding filter_attrs_keys using data_test_foo_kept by blast
next
  assume "distinct (map fst (el_attrs el))"
  then show "filter_attrs el KEEP_ATTRS =
          map (\<lambda>kv. (fst kv,
                  case snd kv of
                    VNone \<Rightarrow> []
                  | VStr s \<Rightarrow> s
                  | VList xs \<Rightarrow> str_join (u '' '') (List.map_filter (\<lambda>x. x) xs)))
            (filter (\<lambda>kv. (fst kv \<in> KEEP_ATTRS \<or> str_startswith (fst kv) (u ''data-test''))
                           \<and> snd kv \<noteq> VNone) (el_attrs el))"
    by (rule filter_attrs_distinct)
next
  assume "control_item max_text_len el = Inr (Some it)"
  then show "attrs it = (if filter_attrs el KEEP_ATTRS = [] then None
                    else Some (filter_attrs el KEEP_ATTRS))"
    by (rule control_item_SomeD(4))
qed

text \<open>
  C4, witness: of the four attributes of \<open>hooks_element\<close> the two testing hooks are
  kept, \<open>class\<close> and the attribute without a value are not.
\<close>

lemma hooks_element_filtered:
  "filter_attrs hooks_element KEEP_ATTRS =
     [(u ''data-testid'', u ''link1''), (u ''data-test-foo'', u ''x y'')]"
  by (simp add: hooks_element_def str_eval extract_eval)

lemma hooks_element_item:
  "control_item 80 hooks_element =
     Inr (Some \<lparr>tag = u ''a'', text = None,
                 attrs = Some [(u ''data-testid'', u ''link1''), (u ''data-test-foo'', u ''x y'')]\<rparr>)"
  by (simp add: hooks_element_def tree_eval str_eval extract_eval)

theorem attribute_filtering_witness:
  "u ''data-testid'' \<in> fst ` set (filter_attrs hooks_element KEEP_ATTRS)
   \<and> u ''class'' \<notin> fst ` set (filter_attrs hooks_element KEEP_ATTRS)
   \<and> u ''data-test-foo'' \<in> fst ` set (filter_attrs hooks_element KEEP_ATTRS)
   \<and> filter_attrs hooks_element KEEP_ATTRS =
        [(u ''data-testid'', u ''link1''), (u ''data-test-foo'', u ''x y'')]
   \<and> attrs \<lparr>tag = u ''a'', text = None,
             attrs = Some [(u ''data-testid'', u ''link1''), (u ''data-test-foo'', u ''x y'')]\<rparr>
       = Some (filter_attrs hooks_element KEEP_ATTRS)"
proof -
  have m1: "(u ''data-testid'', VStr (u ''link1'')) \<in> set (el_attrs hooks_element)
            \<and> VStr (u ''link1'') \<noteq> VNone"
    by (simp add: hooks_element_def)
  have m2: "(u ''data-test-foo'', VList [Some (u ''x''), None, Some (u ''y'')]) \<in> set (el_attrs hooks_element)
            \<and> VList [Some (u ''x''), None, Some (u ''y'')] \<noteq> VNone"
    by (simp add: hooks_element_def)
  have d: "distinct (map fst (el_attrs hooks_element))"
    by (simp add: hooks_element_def u_def)
  have ne: "filter_attrs hooks_element KEEP_ATTRS \<noteq> []"
    by (simp add: hooks_element_filtered)
  have 1: "u ''data-testid'' \<in> fst ` set (filter_attrs hooks_element KEEP_ATTRS)"
    using attribute_filtering [of hooks_element "VStr (u ''link1'')" 80] m1 by blast
  have 2: "u ''class'' \<notin> fst ` set (filter_attrs hooks_element KEEP_ATTRS)"
    using attribute_filtering [of hooks_element VNone 80] by blast
  have 3: "u ''data-test-foo'' \<in> fst ` set (filter_attrs hooks_element KEEP_ATTRS)"
    using attribute_filtering [of hooks_element "VList [Some (u ''x''), None, Some (u ''y'')]" 80] m2
    by blast
  have 4: "attrs \<lparr>tag = u ''a'', text = None,
             attrs = Some [(u ''data-testid'', u ''link1''), (u ''data-test-foo'', u ''x y'')]\<rparr>
       = Some (filter_attrs hooks_element KEEP_ATTRS)"
  proof -
    have "control_item 80 hooks_element = Inr (Some \<lparr>tag = u ''a'', text = None,
             attrs = Some [(u ''data-testid'', u ''link1''), (u ''data-test-foo'', u ''x y'')]\<rparr>)
       \<longrightarrow> attrs \<lparr>tag = u ''a'', text = None,
             attrs = Some [(u ''data-testid'', u ''link1''), (u ''data-test-foo'', u ''x y'')]\<rparr>
          = (if filter_attrs hooks_element KEEP_ATTRS = [] then None
                    else Some (filter_attrs hooks_element KEEP_ATTRS))"
      using attribute_filtering [where el = hooks_element and max_text_len = 80
          and it = "\<lparr>tag = u ''a'', text = None,
             attrs = Some [(u ''data-testid'', u ''link1''), (u ''data-test-foo'', u ''x y'')]\<rparr>"]
      by blast
    with hooks_element_item ne show ?thesis by (simp only: if_False)
  qed
  from 1 2 3 4 show ?thesis
    by (simp add: hooks_element_filtered)
qed

text \<open>
  C10. For an element whose attribute names are distinct, the value emitted for a kept
  attribute is a string: for a list value the entries other than \<open>None\<close> joined by
  single spaces (\<open>List.map_filter\<close> drops the \<open>None\<close> entries and keeps the other ones
  in order), for a string value the string itself; an attribute whose value is \<open>None\<close>
  has no entry.
\<close>

theorem attribute_values_are_strings:
  assumes "distinct (map fst (el_attrs el))"
    and "(k, v) \<in> set (el_attrs el)"
    and "k \<in> KEEP_ATTRS \<or> str_startswith k (u ''data-test'')"
  shows "(v = VList xs \<longrightarrow>
            map_of (filter_attrs el KEEP_ATTRS) k
              = Some (str_join (u '' '') (List.map_filter (\<lambda>x. x) xs)))
     \<and> (v = VStr s \<longrightarrow> map_of (filter_attrs el KEEP_ATTRS) k = Some s)
     \<and> (v = VNone \<longrightarrow> map_of (filter_attrs el KEEP_ATTRS) k = None)
     \<and> List.map_filter (\<lambda>x. x) (map Some ys) = ys
     \<and> List.map_filter (\<lambda>x. x) (None # xs) = List.map_filter (\<lambda>x. x) xs"
proof -
  let ?f = "\<lambda>kv. (fst kv,
                  case snd kv of
                    VNone \<Rightarrow> []
                  | VStr s \<Rightarrow> s
                  | VList xs \<Rightarrow> str_join (u '' '') (List.map_filter (\<lambda>x. x) xs))"
  let ?P = "\<lambda>kv. (fst kv \<in> KEEP_ATTRS \<or> str_startswith (fst kv) (u ''data-test''))
                           \<and> snd kv \<noteq> VNone"
  have eq: "filter_attrs el KEEP_ATTRS = map ?f (filter ?P (el_attrs el))"
    using assms(1) by (rule filter_attrs_distinct)
  have fst_eq: "map fst (map ?f (filter ?P (el_attrs el))) = map fst (filter ?P (el_attrs el))"
    by simp
  have dist: "distinct (map fst (map ?f (filter ?P (el_attrs el))))"
    unfolding fst_eq using assms(1) by (rule distinct_map_filter)
  have kept: "v \<noteq> VNone \<Longrightarrow> map_of (filter_attrs el KEEP_ATTRS) k = Some (snd (?f (k, v)))"
  proof -
    assume "v \<noteq> VNone"
    then have "?f (k, v) \<in> set (map ?f (filter ?P (el_attrs el)))"
      using assms(2,3) by (simp add: image_iff) force
    then have "(k, snd (?f (k, v))) \<in> set (map ?f (filter ?P (el_attrs el)))"
      by simp
    then show ?thesis
      unfolding eq using dist map_of_is_SomeI by fastforce
  qed
  have dropped: "v = VNone \<Longrightarrow> map_of (filter_attrs el KEEP_ATTRS) k = None"
  proof -
    assume vn: "v = VNone"
    have "k \<notin> fst ` set (filter_attrs el KEEP_ATTRS)"
    proof
      assume "k \<in> fst ` set (filter_attrs el KEEP_ATTRS)"
      then obtain w where w: "(k, w) \<in> set (el_attrs el)" "w \<noteq> VNone"
        unfolding filter_attrs_keys by blast
      have "w = v"
        using assms(1,2) w(1) by (meson eq_key_imp_eq_value)
      with vn w(2) show False by simp
    qed
    then show ?thesis by (simp add: map_of_eq_None_iff)
  qed
  have mf1: "List.map_filter (\<lambda>x. x) (map Some ys) = ys"
    by (induction ys) (simp_all add: List.map_filter_simps)
  have mf2: "List.map_filter (\<lambda>x. x) (None # xs) = List.map_filter (\<lambda>x. x) xs"
    by (simp add: List.map_filter_simps)
  show ?thesis
    using kept dropped mf1 mf2 by auto
qed

text \<open>
  C10, witness: the list \<open>["x", None, "y"]\<close> of \<open>data-test-foo\<close> is emitted as
  \<open>x y\<close>, the string of \<open>data-testid\<close> as it is.
\<close>

theorem attribute_values_are_strings_witness:
  "map_of (filter_attrs hooks_element KEEP_ATTRS) (u ''data-test-foo'') = Some (u ''x y'')
   \<and> map_of (filter_attrs hooks_element KEEP_ATTRS) (u ''data-testid'') = Some (u ''link1'')"
proof -
  have d: "distinct (map fst (el_attrs hooks_element))"
    by (simp add: hooks_element_def u_def)
  have j: "str_join (u '' '') (List.map_filter (\<lambda>x. x) [Some (u ''x''), None, Some (u ''y'')]) = u ''x y''"
    by (simp add: List.map_filter_def u_def)
  have m1: "(u ''data-test-foo'', VList [Some (u ''x''), None, Some (u ''y'')]) \<in> set (el_attrs hooks_element)"
    by (simp add: hooks_element_def)
  have m2: "(u ''data-testid'', VStr (u ''link1'')) \<in> set (el_attrs hooks_element)"
    by (simp add: hooks_element_def)
  have k1: "u ''data-test-foo'' \<in> KEEP_ATTRS \<or> str_startswith (u ''data-test-foo'') (u ''data-test'')"
    using data_test_foo_kept by simp
  have k2: "u ''data-testid'' \<in> KEEP_ATTRS \<or> str_startswith (u ''data-testid'') (u ''data-test'')"
    using data_testid_kept by simp
  have "VList [Some (u ''x''), None, Some (u ''y'')] = VList [Some (u ''x''), None, Some (u ''y'')] \<longrightarrow>
        map_of (filter_attrs hooks_element KEEP_ATTRS) (u ''data-test-foo'')
        = Some (str_join (u '' '') (List.map_filter (\<lambda>x. x) [Some (u ''x''), None, Some (u ''y'')]))"
    using attribute_values_are_strings [OF d m1 k1, where xs = "[Some (u ''x''), None, Some (u ''y'')]"]
    by blast
  then have 1: "map_of (filter_attrs hooks_element KEEP_ATTRS) (u ''data-test-foo'') = Some (u ''x y'')"
    using j by simp
  have "VStr (u ''link1'') = VStr (u ''link1'') \<longrightarrow>
        map_of (filter_attrs hooks_element KEEP_ATTRS) (u ''data-testid'') = Some (u ''link1'')"
    using attribute_values_are_strings [OF d m2 k2, where s = "u ''link1''"]
    by blast
  then have 2: "map_of (filter_attrs hooks_element KEEP_ATTRS) (u ''data-testid'') = Some (u ''link1'')"
    by simp
  from 1 2 show ?thesis by simp
qed

section \<open>Items without content are dropped\<close>

text \<open>
  C5. Every item of the output has a non-empty text or a non-empty attribute mapping.
  A selected element whose normalized text is empty and whose filtered mapping is empty
  emits no item: the output is what the loop yields on the other selected elements.
\<close>

theorem empty_items_dropped:
  assumes "extract_controls_inventory soup max_text_len = Inr items"
  shows "(\<forall>it \<in> set items.
            (\<exists>t. text it = Some t \<and> t \<noteq> []) \<or> (\<exists>a. attrs it = Some a \<and> a \<noteq> []))
     \<and> (\<forall>xs el ys.
           select_controls (remove_noise (remove_comments soup)) = xs @ el # ys
           \<and> normalize_text (get_text (u '' '') el) = [] \<and> filter_attrs el KEEP_ATTRS = []
           \<longrightarrow> control_item max_text_len el = Inr None
               \<and> extract_loop max_text_len (xs @ ys) = Inr items)"
proof (intro conjI ballI allI impI)
  fix it assume "it \<in> set items"
  then obtain el where el: "control_item max_text_len el = Inr (Some it)"
    using assms extract_loop_origin by (fastforce simp: extract_controls_inventory_def)
  show "(\<exists>t. text it = Some t \<and> t \<noteq> []) \<or> (\<exists>a. attrs it = Some a \<and> a \<noteq> [])"
    using control_item_SomeD(3,4,5) [OF el]
    by (auto simp: truncate_text_empty_iff)
next
  fix xs el ys
  assume a: "select_controls (remove_noise (remove_comments soup)) = xs @ el # ys
           \<and> normalize_text (get_text (u '' '') el) = [] \<and> filter_attrs el KEEP_ATTRS = []"
  then have run: "extract_loop max_text_len (xs @ el # ys) = Inr items"
    using assms by (simp add: extract_controls_inventory_def)
  then obtain r where "control_item max_text_len el = Inr r"
    using extract_loop_returns [of max_text_len "xs @ el # ys" items el] by auto
  then obtain b where b: "is_hidden el = Inr b"
    using control_item_returns_hidden by blast
  show skip: "control_item max_text_len el = Inr None"
    using a b by (cases b) (simp_all add: control_item_hidden control_item_visible)
  show "extract_loop max_text_len (xs @ ys) = Inr items"
    using run skip by (simp add: extract_loop_skip)
qed

text \<open>
  C5, witness: in \<open>bare_button_soup\<close> the button has no text and only a \<open>class\<close>; the
  output is the link alone.
\<close>

lemma bare_button_select:
  "select_controls (remove_noise (remove_comments bare_button_soup)) =
     [] @ \<lparr>el_name = u ''button'', el_attrs = [(u ''class'', VList [Some (u ''big'')])], el_contents = []\<rparr>
     # [\<lparr>el_name = u ''a'', el_attrs = [(u ''href'', VStr (u ''/x''))], el_contents = []\<rparr>]"
  by (simp add: bare_button_soup_def tree_eval str_eval)

lemma bare_button_output:
  "extract_controls_inventory bare_button_soup 80 =
     Inr [\<lparr>tag = u ''a'', text = None, attrs = Some [(u ''href'', u ''/x'')]\<rparr>]"
  by (simp add: bare_button_soup_def tree_eval str_eval extract_eval)

theorem empty_items_dropped_witness:
  "attrs \<lparr>tag = u ''a'', text = None, attrs = Some [(u ''href'', u ''/x'')]\<rparr>
      = Some [(u ''href'', u ''/x'')]
   \<and> control_item 80
        \<lparr>el_name = u ''button'', el_attrs = [(u ''class'', VList [Some (u ''big'')])], el_contents = []\<rparr>
      = Inr None
   \<and> extract_loop 80 ([] @ [\<lparr>el_name = u ''a'', el_attrs = [(u ''href'', VStr (u ''/x''))], el_contents = []\<rparr>])
      = Inr [\<lparr>tag = u ''a'', text = None, attrs = Some [(u ''href'', u ''/x'')]\<rparr>]"
proof -
  have e: "normalize_text (get_text (u '' '')
        \<lparr>el_name = u ''button'', el_attrs = [(u ''class'', VList [Some (u ''big'')])], el_contents = []\<rparr>) = []
     \<and> filter_attrs
        \<lparr>el_name = u ''button'', el_attrs = [(u ''class'', VList [Some (u ''big'')])], el_contents = []\<rparr>
        KEEP_ATTRS = []"
    by (simp add: tree_eval str_eval extract_eval)
  have "\<forall>xs el ys.
           select_controls (remove_noise (remove_comments bare_button_soup)) = xs @ el # ys
           \<and> normalize_text (get_text (u '' '') el) = [] \<and> filter_attrs el KEEP_ATTRS = []
           \<longrightarrow> control_item 80 el = Inr None
               \<and> extract_loop 80 (xs @ ys)
                   = Inr [\<lparr>tag = u ''a'', text = None, attrs = Some [(u ''href'', u ''/x'')]\<rparr>]"
    using empty_items_dropped [OF bare_button_output] by (rule conjunct2)
  then have "control_item 80
        \<lparr>el_name = u ''button'', el_attrs = [(u ''class'', VList [Some (u ''big'')])], el_contents = []\<rparr>
      = Inr None
   \<and> extract_loop 80 ([] @ [\<lparr>el_name = u ''a'', el_attrs = [(u ''href'', VStr (u ''/x''))], el_contents = []\<rparr>])
      = Inr [\<lparr>tag = u ''a'', text = None, attrs = Some [(u ''href'', u ''/x'')]\<rparr>]"
    using bare_button_select e by blast
  then show ?thesis by simp
qed

section \<open>Document order\<close>

text \<open>
  C6. The output is the list of the items emitted by the elements matching the control
  selector, taken in the order of the depth-first traversal of the cleaned tree
  (\<open>descendants\<close>: a tag, then its children from left to right). The document
  \<open>scenario_soup\<close> with the limit 80 yields exactly the link.
\<close>

theorem document_order_preserved:
  "(extract_controls_inventory soup max_text_len = Inr items \<longrightarrow>
      items = List.map_filter
                (\<lambda>el. case control_item max_text_len el of Inl e \<Rightarrow> None | Inr r \<Rightarrow> r)
                (filter matches_control_selector
                   (concat (map descendants (remove_noise (remove_comments soup))))))
   \<and> extract_controls_inventory scenario_soup 80 =
       Inr [\<lparr>tag = u ''a'', text = Some (u ''Click here''),
             attrs = Some [(u ''href'', u ''/x''), (u ''data-testid'', u ''link1'')]\<rparr>]"
proof (intro conjI impI)
  assume "extract_controls_inventory soup max_text_len = Inr items"
  then show "items = List.map_filter
                (\<lambda>el. case control_item max_text_len el of Inl e \<Rightarrow> None | Inr r \<Rightarrow> r)
                (filter matches_control_selector
                   (concat (map descendants (remove_noise (remove_comments soup)))))"
    using extract_loop_map_filter
    by (simp add: extract_controls_inventory_def select_controls_def)
next
  show "extract_controls_inventory scenario_soup 80 =
       Inr [\<lparr>tag = u ''a'', text = Some (u ''Click here''),
             attrs = Some [(u ''href'', u ''/x''), (u ''data-testid'', u ''link1'')]\<rparr>]"
    by (simp add: scenario_soup_def tree_eval str_eval extract_eval)
qed

text \<open>
  C6, witness: in \<open>nested_soup\<close> the label comes first, then the input inside it, then
  the button after it.
\<close>

lemma nested_soup_output:
  "extract_controls_inventory nested_soup 80 =
     Inr [\<lparr>tag = u ''label'', text = Some (u ''A''), attrs = None\<rparr>,
          \<lparr>tag = u ''input'', text = None, attrs = Some [(u ''id'', u ''i'')]\<rparr>,
          \<lparr>tag = u ''button'', text = Some (u ''B''), attrs = None\<rparr>]"
  by (simp add: nested_soup_def tree_eval str_eval extract_eval)

theorem document_order_preserved_witness:
  "extract_controls_inventory nested_soup 80 =
     Inr [\<lparr>tag = u ''label'', text = Some (u ''A''), attrs = None\<rparr>,
          \<lparr>tag = u ''input'', text = None, attrs = Some [(u ''id'', u ''i'')]\<rparr>,
          \<lparr>tag = u ''button'', text = Some (u ''B''), attrs = None\<rparr>]
   \<and> [\<lparr>tag = u ''label'', text = Some (u ''A''), attrs = None\<rparr>,
       \<lparr>tag = u ''input'', text = None, attrs = Some [(u ''id'', u ''i'')]\<rparr>,
       \<lparr>tag = u ''button'', text = Some (u ''B''), attrs = None\<rparr>]
     = List.map_filter (\<lambda>el. case control_item 80 el of Inl e \<Rightarrow> None | Inr r \<Rightarrow> r)
         (filter matches_control_selector
            (concat (map descendants (remove_noise (remove_comments nested_soup)))))"
  using document_order_preserved [of nested_soup 80
     "[\<lparr>tag = u ''label'', text = Some (u ''A''), attrs = None\<rparr>,
       \<lparr>tag = u ''input'', text = None, attrs = Some [(u ''id'', u ''i'')]\<rparr>,
       \<lparr>tag = u ''button'', text = Some (u ''B''), attrs = None\<rparr>]"]
    nested_soup_output
  by simp

section \<open>Hiddenness is decided on the element itself\<close>

text \<open>
  C9. Let the extraction return \<open>items\<close>. A selected element that has no
  \<open>aria-hidden\<close> attribute, is not an \<open>input\<close> whose lower-cased \<open>type\<close> is
  \<open>hidden\<close>, and has a non-empty normalized text or a non-empty filtered mapping, is
  not hidden and its item is in \<open>items\<close>. Nothing is asked of the elements around it:
  the statement holds for every tree in which the element is selected, whatever its
  ancestors carry.
\<close>

theorem hiddenness_is_per_element:
  assumes "extract_controls_inventory soup max_text_len = Inr items"
    and "el \<in> set (select_controls (remove_noise (remove_comments soup)))"
    and "map_of (el_attrs el) (u ''aria-hidden'') = None"
    and "el_name el = u ''input'' \<longrightarrow>
           (\<forall>v. map_of (el_attrs el) (u ''type'') = Some (VStr v) \<longrightarrow> str_lower v \<noteq> u ''hidden'')"
    and "normalize_text (get_text (u '' '') el) \<noteq> [] \<or> filter_attrs el KEEP_ATTRS \<noteq> []"
  shows "is_hidden el = Inr False
     \<and> (\<exists>it. control_item max_text_len el = Inr (Some it) \<and> tag it = el_name el \<and> it \<in> set items)"
proof -
  have run: "extract_loop max_text_len (select_controls (remove_noise (remove_comments soup))) = Inr items"
    using assms(1) by (simp add: extract_controls_inventory_def)
  then obtain r where "control_item max_text_len el = Inr r"
    using extract_loop_returns assms(2) by blast
  then obtain b where b: "is_hidden el = Inr b"
    using control_item_returns_hidden by blast
  have "\<not> b"
    using is_hidden_no_aria [OF assms(3,4) b] .
  with b have vis: "is_hidden el = Inr False" by simp
  obtain it where it: "control_item max_text_len el = Inr (Some it)" "tag it = el_name el"
    using assms(5) by (auto simp: control_item_visible [OF vis])
  then have "it \<in> set items"
    using extract_loop_member [OF run assms(2)] by simp
  with vis it show ?thesis by blast
qed

text \<open>
  C9, witness: in \<open>hidden_ancestor_soup\<close> the button lies inside a \<open>div\<close> with
  \<open>aria-hidden="true"\<close> and is emitted.
\<close>

lemma hidden_ancestor_select:
  "select_controls (remove_noise (remove_comments hidden_ancestor_soup)) =
     [\<lparr>el_name = u ''button'', el_attrs = [], el_contents = [PageString NavigableString (u ''Go'')]\<rparr>]"
  by (simp add: hidden_ancestor_soup_def tree_eval str_eval)

lemma hidden_ancestor_output:
  "extract_controls_inventory hidden_ancestor_soup 80 =
     Inr [\<lparr>tag = u ''button'', text = Some (u ''Go''), attrs = None\<rparr>]"
  by (simp add: hidden_ancestor_soup_def tree_eval str_eval extract_eval)

theorem hiddenness_is_per_element_witness:
  "extract_controls_inventory hidden_ancestor_soup 80 =
     Inr [\<lparr>tag = u ''button'', text = Some (u ''Go''), attrs = None\<rparr>]
   \<and> is_hidden \<lparr>el_name = u ''button'', el_attrs = [], el_contents = [PageString NavigableString (u ''Go'')]\<rparr>
      = Inr False
   \<and> (\<exists>it. control_item 80
          \<lparr>el_name = u ''button'', el_attrs = [], el_contents = [PageString NavigableString (u ''Go'')]\<rparr>
          = Inr (Some it)
        \<and> it \<in> set [\<lparr>tag = u ''button'', text = Some (u ''Go''), attrs = None\<rparr>])"
proof -
  have m: "\<lparr>el_name = u ''button'', el_attrs = [], el_contents = [PageString NavigableString (u ''Go'')]\<rparr>
      \<in> set (select_controls (remove_noise (remove_comments hidden_ancestor_soup)))"
    by (simp add: hidden_ancestor_select)
  have t: "normalize_text (get_text (u '' '')
      \<lparr>el_name = u ''button'', el_attrs = [], el_contents = [PageString NavigableString (u ''Go'')]\<rparr>) \<noteq> []"
    by (simp add: tree_eval str_eval extract_eval)
  have n: "el_name \<lparr>el_name = u ''button'', el_attrs = [], el_contents = [PageString NavigableString (u ''Go'')]\<rparr>
      \<noteq> u ''input''"
    by (simp add: u_def)
  show ?thesis
    using hiddenness_is_per_element [OF hidden_ancestor_output m] t n hidden_ancestor_output
    by auto
qed

section \<open>The serializer\<close>

lemma str_join_chars:
  "c \<in> set (str_join sep xs) \<Longrightarrow> c \<in> set sep \<or> (\<exists>x \<in> set xs. c \<in> set x)"
  by (induction sep xs rule: str_join.induct) auto

lemma hex_digit_ge: "48 \<le> hex_digit d"
  by (simp add: hex_digit_def)

lemma escape_char_printable: "c \<in> set (escape_char x) \<Longrightarrow> 32 \<le> c"
  using hex_digit_ge [of "x div 16"] hex_digit_ge [of "x mod 16"]
  by (auto simp: escape_char_def split: if_splits)

lemma encode_basestring_printable: "c \<in> set (encode_basestring s) \<Longrightarrow> 32 \<le> c"
  by (auto simp: encode_basestring_def dest: escape_char_printable)

lemma escape_char_literal: "32 \<le> c \<Longrightarrow> c \<noteq> 34 \<Longrightarrow> c \<noteq> 92 \<Longrightarrow> escape_char c = [c]"
  by (simp add: escape_char_def)

lemma encode_basestring_literal:
  "\<forall>c \<in> set s. 32 \<le> c \<and> c \<noteq> 34 \<and> c \<noteq> 92 \<Longrightarrow> encode_basestring s = [34] @ s @ [34]"
proof -
  assume a: "\<forall>c \<in> set s. 32 \<le> c \<and> c \<noteq> 34 \<and> c \<noteq> 92"
  then have "concat (map escape_char s) = s"
    by (induction s) (simp_all add: escape_char_literal)
  then show ?thesis by (simp add: encode_basestring_def)
qed

lemma dumps_printable: "c \<in> set (dumps v) \<Longrightarrow> 32 \<le> c"
proof (induction v arbitrary: c)
  case (JString s)
  then show ?case by (simp add: encode_basestring_printable)
next
  case (JArray vs)
  then show ?case by (auto dest!: str_join_chars)
next
  case (JObject ms)
  have "c \<in> set (str_join [44] (map (\<lambda>kv. encode_basestring (fst kv) @ [58] @ dumps (snd kv)) ms))
      \<Longrightarrow> 32 \<le> c"
  proof -
    assume "c \<in> set (str_join [44] (map (\<lambda>kv. encode_basestring (fst kv) @ [58] @ dumps (snd kv)) ms))"
    then consider "c = 44" | kv where "kv \<in> set ms" "c \<in> set (encode_basestring (fst kv) @ [58] @ dumps (snd kv))"
      by (auto dest!: str_join_chars)
    then show "32 \<le> c"
    proof cases
      case 1
      then show ?thesis by simp
    next
      case 2
      then consider "c \<in> set (encode_basestring (fst kv))" | "c = 58" | "c \<in> set (dumps (snd kv))"
        by auto
      then show ?thesis
      proof cases
        case 1 then show ?thesis by (rule encode_basestring_printable)
      next
        case 2 then show ?thesis by simp
      next
        case 3
        obtain k w where kv: "kv = (k, w)" by (cases kv)
        then show ?thesis using JObject.IH [of kv w c] 2(1) 3 by simp
      qed
    qed
  qed
  with JObject.prems show ?case by auto
qed

lemma key_literals_distinct:
  "u ''tag'' \<noteq> u ''text''" "u ''tag'' \<noteq> u ''attrs''" "u ''text'' \<noteq> u ''attrs''"
  "u ''text'' \<noteq> u ''tag''" "u ''attrs'' \<noteq> u ''tag''" "u ''attrs'' \<noteq> u ''text''"
  by (simp_all add: u_def)

lemma compact_dict_keys:
  "map fst (to_compact_dict it) =
     u ''tag'' # (if \<exists>t. text it = Some t \<and> t \<noteq> [] then [u ''text''] else [])
     @ (if \<exists>a. attrs it = Some a \<and> a \<noteq> [] then [u ''attrs''] else [])"
  by (cases "text it"; cases "attrs it") (simp_all add: to_compact_dict_def)

lemma compact_dict_values:
  "map_of (to_compact_dict it) (u ''tag'') = Some (JString (tag it))"
  "text it = Some t \<Longrightarrow> t \<noteq> [] \<Longrightarrow> map_of (to_compact_dict it) (u ''text'') = Some (JString t)"
  "attrs it = Some a \<Longrightarrow> a \<noteq> [] \<Longrightarrow>
     map_of (to_compact_dict it) (u ''attrs'') = Some (JObject (map (\<lambda>kv. (fst kv, JString (snd kv))) a))"
  by (cases "text it"; cases "attrs it";
      simp add: to_compact_dict_def key_literals_distinct)+

subsection \<open>Counting the spaces of the output\<close>

lemma count_list_concat:
  "count_list (concat xss) c = sum_list (map (\<lambda>xs. count_list xs c) xss)"
  by (induction xss) simp_all

lemma escape_char_spaces: "count_list (escape_char x) 32 = (if x = 32 then 1 else 0)"
  using hex_digit_ge [of "x div 16"] hex_digit_ge [of "x mod 16"]
  by (auto simp: escape_char_def)

lemma encode_basestring_spaces: "count_list (encode_basestring s) 32 = count_list s 32"
  by (induction s) (simp_all add: encode_basestring_def escape_char_spaces)

lemma str_join_comma_spaces:
  "count_list (str_join [44] xs) 32 = sum_list (map (\<lambda>x. count_list x 32) xs)"
  by (induction "[44::nat]" xs rule: str_join.induct) simp_all

lemma key_literal_spaces:
  "count_list (u ''tag'') 32 = 0" "count_list (u ''text'') 32 = 0" "count_list (u ''attrs'') 32 = 0"
  by (simp_all add: u_def)

lemma attrs_object_spaces:
  "count_list (dumps (JObject (map (\<lambda>kv. (fst kv, JString (snd kv))) a))) 32
     = sum_list (map (\<lambda>s. count_list s 32) (map fst a @ map snd a))"
proof -
  have "sum_list (map (\<lambda>kv. count_list (fst kv) 32 + count_list (snd kv) 32) a)
      = sum_list (map (\<lambda>s. count_list s 32) (map fst a)) + sum_list (map (\<lambda>s. count_list s 32) (map snd a))"
    by (induction a) simp_all
  then show ?thesis
    by (simp add: str_join_comma_spaces encode_basestring_spaces comp_def)
qed

lemma compact_dict_spaces:
  "count_list (dumps (JObject (to_compact_dict it))) 32
     = sum_list (map (\<lambda>s. count_list s 32) (item_strings it))"
proof -
  have obj: "\<And>ms. count_list (dumps (JObject ms)) 32
      = sum_list (map (\<lambda>kv. count_list (fst kv) 32 + count_list (dumps (snd kv)) 32) ms)"
    by (simp add: str_join_comma_spaces encode_basestring_spaces comp_def)
  show ?thesis
    unfolding obj
    by (cases "text it"; cases "attrs it")
      (simp_all add: to_compact_dict_def item_strings_def key_literal_spaces
         encode_basestring_spaces attrs_object_spaces del: dumps.simps(3))
qed

lemma inventory_spaces:
  "count_list (inventory_to_json items) 32
     = sum_list (map (\<lambda>it. sum_list (map (\<lambda>s. count_list s 32) (item_strings it))) items)"
proof -
  have "count_list (inventory_to_json items) 32
      = sum_list (map (\<lambda>it. count_list (dumps (JObject (to_compact_dict it))) 32) items)"
    by (simp add: inventory_to_json_def str_join_comma_spaces comp_def del: dumps.simps(3))
  then show ?thesis
    by (simp only: compact_dict_spaces)
qed

text \<open>
  C7. The serialized inventory is a bracketed list of the objects of the items, in the
  order of the items, separated by single commas. The object of an item has the key
  \<open>tag\<close> with the item's tag, then \<open>text\<close> exactly when the item's text is present and
  not empty, then \<open>attrs\<close> (an object of strings) exactly when its mapping is present
  and not empty. The output is compact: it has no character below U+0020 (no tab, no
  line break), and exactly as many spaces as the strings of the items have. Non-ASCII
  characters are written as they are: a string of such characters is serialized as
  itself between quotes.
\<close>

theorem serializer_output:
  "inventory_to_json items =
     [91] @ str_join [44] (map (\<lambda>it. dumps (JObject (to_compact_dict it))) items) @ [93]
   \<and> map fst (to_compact_dict it) =
       u ''tag'' # (if \<exists>t. text it = Some t \<and> t \<noteq> [] then [u ''text''] else [])
       @ (if \<exists>a. attrs it = Some a \<and> a \<noteq> [] then [u ''attrs''] else [])
   \<and> map_of (to_compact_dict it) (u ''tag'') = Some (JString (tag it))
   \<and> (text it = Some t \<and> t \<noteq> [] \<longrightarrow> map_of (to_compact_dict it) (u ''text'') = Some (JString t))
   \<and> (attrs it = Some a \<and> a \<noteq> [] \<longrightarrow>
        map_of (to_compact_dict it) (u ''attrs'')
          = Some (JObject (map (\<lambda>kv. (fst kv, JString (snd kv))) a)))
   \<and> (\<forall>c \<in> set (inventory_to_json items). 32 \<le> c)
   \<and> count_list (inventory_to_json items) 32
       = sum_list (map (\<lambda>it. sum_list (map (\<lambda>s. count_list s 32) (item_strings it))) items)
   \<and> ((\<forall>c \<in> set s. 128 \<le> c) \<longrightarrow> dumps (JString s) = [34] @ s @ [34])"
proof (intro conjI impI ballI)
  show "inventory_to_json items =
     [91] @ str_join [44] (map (\<lambda>it. dumps (JObject (to_compact_dict it))) items) @ [93]"
    by (simp add: inventory_to_json_def comp_def)
  show "map fst (to_compact_dict it) =
       u ''tag'' # (if \<exists>t. text it = Some t \<and> t \<noteq> [] then [u ''text''] else [])
       @ (if \<exists>a. attrs it = Some a \<and> a \<noteq> [] then [u ''attrs''] else [])"
    by (rule compact_dict_keys)
  show "map_of (to_compact_dict it) (u ''tag'') = Some (JString (tag it))"
    by (rule compact_dict_values(1))
  show "map_of (to_compact_dict it) (u ''text'') = Some (JString t)"
    if "text it = Some t \<and> t \<noteq> []"
    using that compact_dict_values(2) by blast
  show "map_of (to_compact_dict it) (u ''attrs'')
          = Some (JObject (map (\<lambda>kv. (fst kv, JString (snd kv))) a))"
    if "attrs it = Some a \<and> a \<noteq> []"
    using that compact_dict_values(3) by blast
  show "32 \<le> c" if "c \<in> set (inventory_to_json items)" for c
    using that unfolding inventory_to_json_def by (rule dumps_printable)
  show "count_list (inventory_to_json items) 32
       = sum_list (map (\<lambda>it. sum_list (map (\<lambda>s. count_list s 32) (item_strings it))) items)"
    by (rule inventory_spaces)
  show "dumps (JString s) = [34] @ s @ [34]" if "\<forall>c \<in> set s. 128 \<le> c"
  proof -
    have "\<forall>c \<in> set s. 32 \<le> c \<and> c \<noteq> 34 \<and> c \<noteq> 92"
      using that by fastforce
    then show ?thesis
      using encode_basestring_literal by simp
  qed
qed

text \<open>
  C7, witness: the two items \<open>accented_item\<close> and \<open>hollow_item\<close> are written as
  \<^verbatim>\<open>[{"tag":"a","text":"X"},{"tag":"b"}]\<close> with the letter U+00E9 for \<open>X\<close>.
\<close>

theorem serializer_output_witness:
  "inventory_to_json [accented_item, hollow_item] =
     [91, 123, 34, 116, 97, 103, 34, 58, 34, 97, 34, 44, 34, 116, 101, 120, 116, 34, 58,
      34, 233, 34, 125, 44, 123, 34, 116, 97, 103, 34, 58, 34, 98, 34, 125, 93]
   \<and> map fst (to_compact_dict accented_item) = [u ''tag'', u ''text'']
   \<and> map fst (to_compact_dict hollow_item) = [u ''tag'']
   \<and> map_of (to_compact_dict accented_item) (u ''text'') = Some (JString [233])
   \<and> count_list (inventory_to_json [accented_item, hollow_item]) 32 = 0
   \<and> dumps (JString [233]) = [34] @ [233] @ [34]"
proof -
  note th = serializer_output [of "[accented_item, hollow_item]" accented_item "[233]" "[]" "[233]"]
  note th2 = serializer_output [of "[]" hollow_item "[]" "[]" "[]"]
  have 1: "inventory_to_json [accented_item, hollow_item] =
     [91, 123, 34, 116, 97, 103, 34, 58, 34, 97, 34, 44, 34, 116, 101, 120, 116, 34, 58,
      34, 233, 34, 125, 44, 123, 34, 116, 97, 103, 34, 58, 34, 98, 34, 125, 93]"
    using th
    by (simp add: accented_item_def hollow_item_def to_compact_dict_def encode_basestring_def
        escape_char_def u_def)
  have 2: "map fst (to_compact_dict accented_item) = [u ''tag'', u ''text'']"
    using th by (simp add: accented_item_def)
  have 3: "map fst (to_compact_dict hollow_item) = [u ''tag'']"
    using th2 by (simp add: hollow_item_def)
  have 4: "map_of (to_compact_dict accented_item) (u ''text'') = Some (JString [233])"
    using th by (simp add: accented_item_def)
  have "sum_list (map (\<lambda>it. sum_list (map (\<lambda>s. count_list s 32) (item_strings it)))
            [accented_item, hollow_item]) = 0"
    by (simp add: accented_item_def hollow_item_def item_strings_def u_def)
  moreover have "count_list (inventory_to_json [accented_item, hollow_item]) 32
      = sum_list (map (\<lambda>it. sum_list (map (\<lambda>s. count_list s 32) (item_strings it)))
            [accented_item, hollow_item])"
    using th by blast
  ultimately have 5: "count_list (inventory_to_json [accented_item, hollow_item]) 32 = 0"
    by (simp only:)
  have "\<forall>c \<in> set [233::nat]. 128 \<le> c" by simp
  then have 6: "dumps (JString [233]) = [34] @ [233] @ [34]"
    using th by blast
  from 1 2 3 4 5 6 show ?thesis by blast
qed

section \<open>Reading the serialized inventory back\<close>

lemma hex_value_hex_digit: "d < 16 \<Longrightarrow> hex_value (hex_digit d) = Some d"
  by (simp add: hex_value_def hex_digit_def)

lemma scan_string_escape_char:
  "scan_string acc (escape_char c @ rest) = scan_string (acc @ [c]) rest"
proof (cases "c < 32")
  case False
  then show ?thesis
    by (simp add: escape_char_def unescape_def)
next
  case True
  then have d: "c div 16 < 16" "c mod 16 < 16" by auto
  have v: "(c div 16) * 16 + c mod 16 = c" by simp
  show ?thesis
  proof (cases "c \<in> {8, 9, 10, 12, 13}")
    case True
    then show ?thesis
      by (auto simp: escape_char_def unescape_def)
  next
    case False
    with True have e: "escape_char c = [92, 117, 48, 48, hex_digit (c div 16), hex_digit (c mod 16)]"
      by (simp add: escape_char_def)
    have z: "hex_value 48 = Some 0" by (simp add: hex_value_def)
    show ?thesis
      unfolding e using hex_value_hex_digit [OF d(1)] hex_value_hex_digit [OF d(2)] z v
      by simp
  qed
qed

lemma scan_string_encoded:
  "scan_string acc (concat (map escape_char s) @ 34 # rest) = Some (acc @ s, rest)"
proof (induction s arbitrary: acc)
  case Nil
  show ?case by simp
next
  case (Cons c s)
  have "scan_string acc (concat (map escape_char (c # s)) @ 34 # rest)
      = scan_string acc (escape_char c @ (concat (map escape_char s) @ 34 # rest))"
    by simp
  also have "\<dots> = scan_string (acc @ [c]) (concat (map escape_char s) @ 34 # rest)"
    by (rule scan_string_escape_char)
  also have "\<dots> = Some ((acc @ [c]) @ s, rest)"
    by (rule Cons.IH)
  finally show ?case by simp
qed

lemma dumps_head: "\<exists>c cs. dumps v = c # cs \<and> (c = 34 \<or> c = 91 \<or> c = 123)"
  by (cases v) (simp_all add: encode_basestring_def)

lemma skip_ws_dumps: "skip_ws (dumps v @ rest) = dumps v @ rest"
proof -
  obtain c cs where "dumps v = c # cs" "c = 34 \<or> c = 91 \<or> c = 123"
    using dumps_head by blast
  then show ?thesis
    by (auto simp: skip_ws_def json_ws_def)
qed

lemma skip_ws_punct:
  "skip_ws (44 # r) = 44 # r" "skip_ws (93 # r) = 93 # r" "skip_ws (125 # r) = 125 # r"
  "skip_ws (58 # r) = 58 # r" "skip_ws (34 # r) = 34 # r"
  by (simp_all add: skip_ws_def json_ws_def)

lemma str_join_Cons:
  "str_join sep (x # xs) = (if xs = [] then x else x @ sep @ str_join sep xs)"
  by (cases xs) simp_all

lemma parse_elements_dumps:
  assumes "\<And>v n rest. v \<in> set vs \<Longrightarrow> length (dumps v) \<le> n
             \<Longrightarrow> parse_value n (dumps v @ rest) = Some (v, rest)"
    and "vs \<noteq> []"
    and "length (str_join [44] (map dumps vs)) < n"
  shows "parse_elements n (str_join [44] (map dumps vs) @ 93 # rest) = Some (vs, rest)"
  using assms
proof (induction vs arbitrary: n)
  case Nil
  then show ?case by simp
next
  case (Cons v vs)
  obtain m where n: "n = Suc m" using Cons.prems(3) by (cases n) auto
  show ?case
  proof (cases "vs = []")
    case True
    have "length (dumps v) \<le> m" using Cons.prems(3) True n by simp
    then have "parse_value m (dumps v @ 93 # rest) = Some (v, 93 # rest)"
      using Cons.prems(1) by simp
    then show ?thesis
      using True n by (simp add: skip_ws_punct)
  next
    case False
    have len: "length (str_join [44] (map dumps (v # vs)))
        = length (dumps v) + 1 + length (str_join [44] (map dumps vs))"
      using False by (simp add: str_join_Cons)
    have eq: "str_join [44] (map dumps (v # vs)) @ 93 # rest
        = dumps v @ 44 # (str_join [44] (map dumps vs) @ 93 # rest)"
      using False by (simp add: str_join_Cons)
    have "length (dumps v) \<le> m" using Cons.prems(3) len n by simp
    then have pv: "parse_value m (dumps v @ 44 # (str_join [44] (map dumps vs) @ 93 # rest))
        = Some (v, 44 # (str_join [44] (map dumps vs) @ 93 # rest))"
      using Cons.prems(1) by simp
    have "length (str_join [44] (map dumps vs)) < m" using Cons.prems(3) len n by simp
    then have pe: "parse_elements m (str_join [44] (map dumps vs) @ 93 # rest) = Some (vs, rest)"
      using Cons.IH [of m] Cons.prems(1) False by simp
    show ?thesis
      unfolding eq n using pv pe by (simp add: skip_ws_punct)
  qed
qed

lemma parse_members_dumps:
  assumes "\<And>k v n rest. (k, v) \<in> set ms \<Longrightarrow> length (dumps v) \<le> n
             \<Longrightarrow> parse_value n (dumps v @ rest) = Some (v, rest)"
    and "ms \<noteq> []"
    and "length (str_join [44] (map (\<lambda>kv. encode_basestring (fst kv) @ [58] @ dumps (snd kv)) ms)) < n"
  shows "parse_members n
           (str_join [44] (map (\<lambda>kv. encode_basestring (fst kv) @ [58] @ dumps (snd kv)) ms)
            @ 125 # rest) = Some (ms, rest)"
  using assms
proof (induction ms arbitrary: n)
  case Nil
  then show ?case by simp
next
  case (Cons kv ms)
  obtain k v where kv: "kv = (k, v)" by (cases kv)
  let ?enc = "\<lambda>kv. encode_basestring (fst kv) @ [58] @ dumps (snd kv)"
  obtain m where n: "n = Suc m" using Cons.prems(3) by (cases n) auto
  have key: "\<And>r. scan_string [] (concat (map escape_char k) @ 34 # r) = Some (k, r)"
    using scan_string_encoded [of "[]" k] by simp
  have val: "\<And>j r. length (dumps v) \<le> j \<Longrightarrow> parse_value j (dumps v @ r) = Some (v, r)"
    using Cons.prems(1) [of k v] kv by simp
  show ?case
  proof (cases "ms = []")
    case True
    have eq: "str_join [44] (map ?enc (kv # ms)) @ 125 # rest
        = 34 # (concat (map escape_char k) @ 34 # (58 # (dumps v @ 125 # rest)))"
      using True kv by (simp add: encode_basestring_def)
    have "length (dumps v) \<le> m"
      using Cons.prems(3) True n kv by (simp add: encode_basestring_def)
    then have pv: "parse_value m (dumps v @ 125 # rest) = Some (v, 125 # rest)"
      by (rule val)
    show ?thesis
      unfolding eq n using pv True kv by (simp add: skip_ws_punct key)
  next
    case False
    let ?tail = "str_join [44] (map ?enc ms) @ 125 # rest"
    have eq: "str_join [44] (map ?enc (kv # ms)) @ 125 # rest
        = 34 # (concat (map escape_char k) @ 34 # (58 # (dumps v @ 44 # ?tail)))"
      using False kv by (simp add: str_join_Cons encode_basestring_def)
    have len: "length (str_join [44] (map ?enc (kv # ms)))
        = length (encode_basestring k) + 1 + length (dumps v) + 1 + length (str_join [44] (map ?enc ms))"
      using False kv by (simp add: str_join_Cons)
    have "length (dumps v) \<le> m" using Cons.prems(3) len n by simp
    then have pv: "parse_value m (dumps v @ 44 # ?tail) = Some (v, 44 # ?tail)"
      by (rule val)
    have ih: "\<And>k v n rest. (k, v) \<in> set ms \<Longrightarrow> length (dumps v) \<le> n
             \<Longrightarrow> parse_value n (dumps v @ rest) = Some (v, rest)"
      using Cons.prems(1) by (meson list.set_intros(2))
    have "length (str_join [44] (map ?enc ms)) < m" using Cons.prems(3) len n by simp
    then have pm: "parse_members m ?tail = Some (ms, rest)"
      using Cons.IH [of m] ih False by blast
    show ?thesis
      unfolding eq n using pv pm kv by (simp add: skip_ws_punct key)
  qed
qed

lemma str_join_head:
  assumes "xs \<noteq> []" and "hd xs \<noteq> []"
  shows "\<exists>cs. str_join sep xs = hd (hd xs) # cs"
proof -
  obtain x ys where xs: "xs = x # ys" using assms(1) by (cases xs) auto
  then obtain c cs where x: "x = c # cs" using assms(2) by (cases x) auto
  show ?thesis using xs x by (cases ys) auto
qed

lemma parse_value_dumps:
  "length (dumps v) \<le> n \<Longrightarrow> parse_value n (dumps v @ rest) = Some (v, rest)"
proof (induction v arbitrary: n rest)
  case (JString s)
  obtain m where n: "n = Suc m" using JString by (cases n) (auto simp: encode_basestring_def)
  have "scan_string [] (concat (map escape_char s) @ 34 # rest) = Some (s, rest)"
    using scan_string_encoded [of "[]" s rest] by simp
  then show ?case
    unfolding n by (simp add: encode_basestring_def skip_ws_punct)
next
  case (JArray vs)
  obtain m where n: "n = Suc m" using JArray.prems by (cases n) auto
  show ?case
  proof (cases "vs = []")
    case True
    then show ?thesis unfolding n by (simp add: skip_ws_def json_ws_def)
  next
    case False
    let ?body = "str_join [44] (map dumps vs)"
    have "length ?body < m" using JArray.prems n by simp
    then have pe: "parse_elements m (?body @ 93 # rest) = Some (vs, rest)"
      using parse_elements_dumps [of vs m rest] JArray.IH False by simp
    obtain c cs where h: "dumps (hd vs) = c # cs" "c = 34 \<or> c = 91 \<or> c = 123"
      using dumps_head by blast
    have "map dumps vs \<noteq> []" "hd (map dumps vs) \<noteq> []"
      using False h by (simp_all add: hd_map)
    then obtain ds where b: "?body = hd (hd (map dumps vs)) # ds"
      using str_join_head by blast
    have b': "?body = c # ds" using b False h by (simp add: hd_map)
    have sk: "skip_ws (?body @ 93 # rest) = c # (ds @ 93 # rest)"
      using b' h(2) by (auto simp: skip_ws_def json_ws_def)
    have "dumps (JArray vs) @ rest = 91 # (?body @ 93 # rest)" by simp
    then show ?thesis
      unfolding n using pe sk h(2) b'
      by (auto simp: skip_ws_def json_ws_def)
  qed
next
  case (JObject ms)
  obtain m where n: "n = Suc m" using JObject.prems by (cases n) auto
  let ?enc = "\<lambda>kv. encode_basestring (fst kv) @ [58] @ dumps (snd kv)"
  show ?case
  proof (cases "ms = []")
    case True
    then show ?thesis unfolding n by (simp add: skip_ws_def json_ws_def)
  next
    case False
    let ?body = "str_join [44] (map ?enc ms)"
    have ih: "\<And>k v n rest. (k, v) \<in> set ms \<Longrightarrow> length (dumps v) \<le> n
             \<Longrightarrow> parse_value n (dumps v @ rest) = Some (v, rest)"
      using JObject.IH by fastforce
    have "length ?body < m" using JObject.prems n by simp
    then have pm: "parse_members m (?body @ 125 # rest) = Some (ms, rest)"
      using parse_members_dumps [of ms m rest] ih False by blast
    have "map ?enc ms \<noteq> []" "hd (map ?enc ms) \<noteq> []"
      using False by (simp_all add: hd_map encode_basestring_def)
    then obtain ds where b: "?body = hd (hd (map ?enc ms)) # ds"
      using str_join_head by blast
    have b': "?body = 34 # ds" using b False by (simp add: hd_map encode_basestring_def)
    have sk: "skip_ws (?body @ 125 # rest) = 34 # (ds @ 125 # rest)"
      using b' by (auto simp: skip_ws_def json_ws_def)
    have "dumps (JObject ms) @ rest = 123 # (?body @ 125 # rest)" by simp
    then show ?thesis
      unfolding n using pm sk b'
      by (auto simp: skip_ws_def json_ws_def)
  qed
qed

lemma loads_dumps: "loads (dumps v) = Some v"
  using parse_value_dumps [of v "Suc (length (dumps v))" "[]"]
  by (simp add: loads_def skip_ws_def)

lemma unwrap_strings:
  "map (\<lambda>kv. (fst kv, case snd kv of JString s \<Rightarrow> s | _ \<Rightarrow> []))
     (map (\<lambda>kv. (fst kv, JString (snd kv))) a) = a"
  by (induction a) auto

lemma from_compact_dict_to_compact_dict:
  assumes "text it \<noteq> Some []" and "attrs it \<noteq> Some []"
  shows "from_compact_dict (JObject (to_compact_dict it)) = Some it"
proof -
  have "from_compact_dict (JObject (to_compact_dict it))
      = Some \<lparr>tag = tag it, text = text it, attrs = attrs it\<rparr>"
    using assms
    by (cases "text it"; cases "attrs it")
      (simp_all add: from_compact_dict_def to_compact_dict_def key_literals_distinct unwrap_strings
         del: map_map)
  then show ?thesis by simp
qed

lemma inventory_round_trip:
  assumes "\<forall>it \<in> set items. text it \<noteq> Some [] \<and> attrs it \<noteq> Some []"
  shows "inventory_of_json (inventory_to_json items) = Some items"
proof -
  have l: "loads (inventory_to_json items) = Some (JArray (map (\<lambda>it. JObject (to_compact_dict it)) items))"
    unfolding inventory_to_json_def by (rule loads_dumps)
  have each: "\<forall>it \<in> set items. from_compact_dict (JObject (to_compact_dict it)) = Some it"
    using assms from_compact_dict_to_compact_dict by blast
  then have all: "list_all (\<lambda>v. from_compact_dict v \<noteq> None) (map (\<lambda>it. JObject (to_compact_dict it)) items)"
    by (simp add: list_all_iff)
  have "map (\<lambda>v. the (from_compact_dict v)) (map (\<lambda>it. JObject (to_compact_dict it)) items) = items"
    using each by (induction items) auto
  with l all show ?thesis
    by (simp add: inventory_of_json_def)
qed

lemma control_item_fields_nonempty:
  "control_item n el = Inr (Some it) \<Longrightarrow> text it \<noteq> Some [] \<and> attrs it \<noteq> Some []"
  using control_item_SomeD(3,4) [of n el it]
  by (auto simp: truncate_text_empty_iff split: if_splits)

lemma extracted_fields_nonempty:
  assumes "extract_controls_inventory soup n = Inr items"
  shows "\<forall>it \<in> set items. text it \<noteq> Some [] \<and> attrs it \<noteq> Some []"
proof
  fix it assume "it \<in> set items"
  then obtain el where "control_item n el = Inr (Some it)"
    using assms extract_loop_origin by (fastforce simp: extract_controls_inventory_def)
  then show "text it \<noteq> Some [] \<and> attrs it \<noteq> Some []"
    by (rule control_item_fields_nonempty)
qed

text \<open>
  C8. Parsing the serialized output of an extraction recovers the sequence of items,
  that is the same triples of tag, text and attribute mapping in the same order. For
  any sequence of items the parser returns the value that was serialized; the bound on
  the depth of its calls is never reached.
\<close>

theorem json_round_trip:
  "(extract_controls_inventory soup max_text_len = Inr items
      \<longrightarrow> inventory_of_json (inventory_to_json items) = Some items)
   \<and> loads (inventory_to_json others)
       = Some (JArray (map (\<lambda>it. JObject (to_compact_dict it)) others))"
proof (intro conjI impI)
  assume "extract_controls_inventory soup max_text_len = Inr items"
  then show "inventory_of_json (inventory_to_json items) = Some items"
    using inventory_round_trip extracted_fields_nonempty by blast
next
  show "loads (inventory_to_json others)
       = Some (JArray (map (\<lambda>it. JObject (to_compact_dict it)) others))"
    unfolding inventory_to_json_def by (rule loads_dumps)
qed

text \<open>
  C8, witness: the output of the extraction on \<open>scenario_soup\<close>, serialized and parsed,
  is that output.
\<close>

lemma scenario_soup_output:
  "extract_controls_inventory scenario_soup 80 =
       Inr [\<lparr>tag = u ''a'', text = Some (u ''Click here''),
             attrs = Some [(u ''href'', u ''/x''), (u ''data-testid'', u ''link1'')]\<rparr>]"
  by (simp add: scenario_soup_def tree_eval str_eval extract_eval)

theorem json_round_trip_witness:
  "inventory_of_json
     (inventory_to_json
        [\<lparr>tag = u ''a'', text = Some (u ''Click here''),
          attrs = Some [(u ''href'', u ''/x''), (u ''data-testid'', u ''link1'')]\<rparr>])
   = Some [\<lparr>tag = u ''a'', text = Some (u ''Click here''),
            attrs = Some [(u ''href'', u ''/x''), (u ''data-testid'', u ''link1'')]\<rparr>]"
  using json_round_trip [of scenario_soup 80
      "[\<lparr>tag = u ''a'', text = Some (u ''Click here''),
          attrs = Some [(u ''href'', u ''/x''), (u ''data-testid'', u ''link1'')]\<rparr>]"]
    scenario_soup_output
  by blast

section \<open>The chat-completion script: which responses are recovered\<close>

lemma map_of_Some_fst_image: "map_of kvs k = Some v \<Longrightarrow> k \<in> fst ` set kvs"
  by (metis map_of_eq_None_iff option.distinct(1))

text \<open>
  C2, as the code has it. The script tests one thing, whether \<open>"choices" in data\<close>.
  When the test is false (in particular for a JSON object without the key
  \<open>choices\<close>) it prints \<open>ERROR:\<close> and the payload and raises nothing. When the payload
  is an object whose \<open>choices\<close> is a list that starts with an object whose \<open>message\<close>
  is an object with a \<open>content\<close>, it prints that content. A payload that has
  \<open>choices\<close> but not the rest of the shape is not covered.
\<close>

theorem llm_script_absent_field_or_first_choice:
  "(py_in (u ''choices'') data = Inr False \<longrightarrow> llm_script data = Inr [PStr (u ''ERROR:''), data])
   \<and> (data = PDict kvs \<and> map_of kvs (u ''choices'') = None
        \<longrightarrow> llm_script data = Inr [PStr (u ''ERROR:''), data])
   \<and> (data = PDict kvs \<and> map_of kvs (u ''choices'') = Some (PList (PDict c # cs))
        \<and> map_of c (u ''message'') = Some (PDict m) \<and> map_of m (u ''content'') = Some v
        \<longrightarrow> llm_script data = Inr [v])"
proof (intro conjI impI)
  assume "py_in (u ''choices'') data = Inr False"
  then show "llm_script data = Inr [PStr (u ''ERROR:''), data]"
    by (simp add: llm_script_def)
next
  assume "data = PDict kvs \<and> map_of kvs (u ''choices'') = None"
  then have "py_in (u ''choices'') data = Inr False"
    by (simp add: py_in_def map_of_eq_None_iff)
  then show "llm_script data = Inr [PStr (u ''ERROR:''), data]"
    by (simp add: llm_script_def)
next
  assume a: "data = PDict kvs \<and> map_of kvs (u ''choices'') = Some (PList (PDict c # cs))
        \<and> map_of c (u ''message'') = Some (PDict m) \<and> map_of m (u ''content'') = Some v"
  then have "py_in (u ''choices'') data = Inr True"
    by (simp add: py_in_def map_of_Some_fst_image)
  with a show "llm_script data = Inr [v]"
    by (simp add: llm_script_def getitem_str_def getitem_0_def)
qed

text \<open>
  C2, witness: the error payload \<open>{"error": "no credits"}\<close> is reported, and the
  content \<open>Hi\<close> of a well-shaped response is printed.
\<close>

theorem llm_script_absent_field_or_first_choice_witness:
  "llm_script (PDict [(u ''error'', PStr (u ''no credits''))])
     = Inr [PStr (u ''ERROR:''), PDict [(u ''error'', PStr (u ''no credits''))]]
   \<and> llm_script (PDict [(u ''choices'',
        PList [PDict [(u ''message'', PDict [(u ''content'', PStr (u ''Hi''))])]])])
     = Inr [PStr (u ''Hi'')]"
proof -
  have 1: "map_of [(u ''error'', PStr (u ''no credits''))] (u ''choices'') = None"
    by (simp add: u_def)
  have 2: "llm_script (PDict [(u ''error'', PStr (u ''no credits''))])
     = Inr [PStr (u ''ERROR:''), PDict [(u ''error'', PStr (u ''no credits''))]]"
    using llm_script_absent_field_or_first_choice
      [of "PDict [(u ''error'', PStr (u ''no credits''))]" "[(u ''error'', PStr (u ''no credits''))]"]
      1 by simp
  have 3: "llm_script (PDict [(u ''choices'',
        PList [PDict [(u ''message'', PDict [(u ''content'', PStr (u ''Hi''))])]])])
     = Inr [PStr (u ''Hi'')]"
    using llm_script_absent_field_or_first_choice
      [of "PDict [(u ''choices'', PList [PDict [(u ''message'', PDict [(u ''content'', PStr (u ''Hi''))])]])]"
          "[(u ''choices'', PList [PDict [(u ''message'', PDict [(u ''content'', PStr (u ''Hi''))])]])]"
          "[(u ''message'', PDict [(u ''content'', PStr (u ''Hi''))])]" "[]"
          "[(u ''content'', PStr (u ''Hi''))]" "PStr (u ''Hi'')"]
    by simp
  from 2 3 show ?thesis by simp
qed

text \<open>
  C2 as stated fails: the payload \<open>{"choices": []}\<close> lacks the expected shape, the
  test \<open>"choices" in data\<close> succeeds, and \<open>data["choices"][0]\<close> raises \<open>IndexError\<close>;
  nothing is printed.
\<close>

theorem llm_script_empty_choices_raises:
  "llm_script (PDict [(u ''choices'', PList [])]) = Inl IndexError"
  by (simp add: llm_script_def py_in_def getitem_str_def getitem_0_def)

end
